theory Spec2Isabelle
  imports Complex_Main "HOL-Library.Option_ord" "HOL-Library.Multiset"
begin

section \<open>Tensors and the shared numeric helpers of routing.py\<close>

text \<open>
  A 2-D tensor of shape \<open>(S, E)\<close> is a list of \<open>S\<close> rows, each a list of \<open>E\<close> entries; a
  3-D tensor of shape \<open>(S, E, C)\<close> is a list of such matrices. The number of columns
  \<open>gates.shape[1]\<close> is carried beside the rows (\<open>num_experts\<close>), since a tensor with no row
  still has it.

  Floating-point numbers are idealised as \<^typ>\<open>real\<close>: no rounding, no NaN, no infinity
  (the one \<open>-inf\<close> the source writes, in \<open>masked_fill\<close>, is \<^term>\<open>None :: real option\<close>, the
  least element of the order on \<^typ>\<open>real option\<close>). Integer tensors (\<open>int64\<close>) are
  \<^typ>\<open>int\<close>; sizes are far below \<open>2^63\<close>. The casts of \<open>use_fp32\<close> are the identity
  on reals, and \<open>use_xmoe\<close> and \<open>gate_obj\<close> are not read by the routing functions, so these
  parameters are left out. The \<open>metadata\<close> dictionary (entropy, histograms, overflow
  percentages) is logging only and is not modelled.
\<close>

datatype error =
    ZeroDivisionError      \<comment> \<open>\<open>num_tokens / num_experts\<close> with no expert\<close>
  | EmptyReduction         \<comment> \<open>\<open>torch.argmax\<close> over a dimension of size 0\<close>
  | NegativeDimension      \<comment> \<open>\<open>torch.zeros\<close> with a negative size\<close>
  | IndexOutOfBounds       \<comment> \<open>\<open>scatter_\<close> with an index outside the dimension\<close>

text \<open>\<open>F.softmax(logits, dim=1)\<close>.\<close>

definition softmax_row :: "real list \<Rightarrow> real list" where
  "softmax_row xs = map (\<lambda>x. exp x / sum_list (map exp xs)) xs"

definition softmax :: "real list list \<Rightarrow> real list list" where
  "softmax m = map softmax_row m"

text \<open>\<open>torch.argmax\<close> along a row: the index of the first maximal entry.\<close>

fun argmax :: "'a::linorder list \<Rightarrow> nat" where
  "argmax [] = 0"
| "argmax [x] = 0"
| "argmax (x # y # ys) =
     (let j = argmax (y # ys) in if x < (y # ys) ! j then Suc j else 0)"

text \<open>
  \<open>one_hot(indices, num_classes)\<close>: a zero tensor with one row of \<open>num_classes\<close> entries
  per index, and \<open>scatter_\<close> writing 1 at each index. \<open>torch.zeros\<close> refuses a negative
  size, and \<open>scatter_\<close> refuses an index outside \<open>[0, num_classes)\<close>.
\<close>

definition one_hot :: "int list \<Rightarrow> int \<Rightarrow> error + int list list" where
  "one_hot indices num_classes =
     (if num_classes < 0 then Inl NegativeDimension
      else if list_ex (\<lambda>i. i < 0 \<or> num_classes \<le> i) indices then Inl IndexOutOfBounds
      else Inr (map (\<lambda>i. (replicate (nat num_classes) 0)[nat i := 1]) indices))"

definition column :: "'a list list \<Rightarrow> nat \<Rightarrow> 'a list" where
  "column m e = map (\<lambda>row. row ! e) m"

text \<open>
  Modelled from the spec: \<open>fused_cumsum_sub_one\<close> is imported from \<open>moe_layer\<close>, which is
  not among the sources. The spec (4.4) gives it as the exclusive prefix sum per expert
  column: for each column, the running count of the entries strictly before the current
  row.
\<close>

definition fused_cumsum_sub_one :: "int list list \<Rightarrow> int list list" where
  "fused_cumsum_sub_one msk =
     map (\<lambda>s. map (\<lambda>e. sum_list (take s (column msk e))) [0..<length (msk ! s)])
       [0..<length msk]"

text \<open>\<open>(gates * mask).sum(dim=1)\<close>, the mask cast to the dtype of the gates.\<close>

definition masked_row_sum :: "real list list \<Rightarrow> int list list \<Rightarrow> real list" where
  "masked_row_sum gates msk =
     map2 (\<lambda>g m. sum_list (map2 (\<lambda>x y. x * real_of_int y) g m)) gates msk"

text \<open>\<open>torch.sum(locations * mask, dim=1)\<close>.\<close>

definition row_sum_prod :: "int list list \<Rightarrow> int list list \<Rightarrow> int list" where
  "row_sum_prod locations msk =
     map2 (\<lambda>l m. sum_list (map2 (\<lambda>x y. x * y) l m)) locations msk"

text \<open>\<open>mask * torch.lt(locations, capacity)\<close>.\<close>

definition keep_lt :: "int list list \<Rightarrow> int list list \<Rightarrow> int \<Rightarrow> int list list" where
  "keep_lt msk locations capacity =
     map2 (\<lambda>m l. map2 (\<lambda>x y. x * (if y < capacity then 1 else 0)) m l) msk locations"

text \<open>
  \<open>if input_mask is not None and input_mask.any(): mask = mask * (~input_mask).unsqueeze(-1)\<close>.
\<close>

definition apply_padding :: "bool list option \<Rightarrow> int list list \<Rightarrow> int list list" where
  "apply_padding input_mask msk =
     (case input_mask of
        None \<Rightarrow> msk
      | Some pad \<Rightarrow>
          if list_ex (\<lambda>p. p) pad
          then map2 (\<lambda>row p. map (\<lambda>x. x * (if p then 0 else 1)) row) msk pad
          else msk)"

text \<open>
  \<open>torch.mean\<close> of a vector, and along \<open>dim=0\<close> of a matrix with \<open>E\<close> columns. On an empty
  vector torch gives NaN; here the quotient by zero is 0.
\<close>

definition mean :: "real list \<Rightarrow> real" where
  "mean xs = sum_list xs / real (length xs)"

definition mean_dim0 :: "nat \<Rightarrow> real list list \<Rightarrow> real list" where
  "mean_dim0 E m = map (\<lambda>e. mean (column m e)) [0..<E]"

text \<open>The four lines under \<open># Compute l_aux\<close>, the same in both routers.\<close>

definition compute_l_aux :: "nat \<Rightarrow> real list list \<Rightarrow> int list list \<Rightarrow> real" where
  "compute_l_aux E gates mask1 =
     (let me = mean_dim0 E gates;
          ce = mean_dim0 E (map (map real_of_int) mask1);
          l_aux = mean (map2 (\<lambda>x y. x * y) me ce)
      in l_aux * real E * real E)"

text \<open>
  \<open>torch.bmm(gates.unsqueeze(-1), locations_sc.unsqueeze(1))\<close>, that is
  \<open>einsum("se,sc->sec")\<close>.
\<close>

definition bmm_outer :: "real list list \<Rightarrow> int list list \<Rightarrow> real list list list" where
  "bmm_outer gates locations_sc =
     map2 (\<lambda>g l. map (\<lambda>x. map (\<lambda>y. x * real_of_int y) l) g) gates locations_sc"

text \<open>\<open>tensor.bool()\<close>: an entry is true when it is not zero.\<close>

definition to_bool :: "real list list list \<Rightarrow> bool list list list" where
  "to_bool t = map (map (map (\<lambda>x. x \<noteq> 0))) t"

text \<open>Python's \<open>int()\<close> of a float truncates toward zero.\<close>

definition py_int :: "real \<Rightarrow> int" where
  "py_int x = (if 0 \<le> x then \<lfloor>x\<rfloor> else \<lceil>x\<rceil>)"

section \<open>Arguments and results\<close>

text \<open>
  The arguments both routers share. \<open>has_tutel\<close> is the module-level capability flag
  imported from \<open>moe_layer\<close>; it is taken as a parameter.
\<close>

record gate_args =
  logits :: "real list list"
  num_experts :: nat
  input_mask :: "bool list option"
  eval_mode :: bool
  moe_eval_capacity_token_fraction :: real
  has_tutel :: bool

record top1_args = gate_args +
  capacity_factor :: real

text \<open>
  The two return shapes: the dense tuple \<open>(l_aux, combine_weights, dispatch_mask)\<close> and,
  under \<open>has_tutel\<close>, \<open>(l_aux, capacity, num_experts, indices, locations, gates)\<close>.
\<close>

datatype gating_result =
    Dense real "real list list list" "bool list list list"
  | Sparse real int nat "int list list" "int list list" "real list list"

text \<open>
  A well-shaped call: every row of the logits has \<open>num_experts\<close> entries and the padding
  mask, when given, has one flag per token.
\<close>

definition well_shaped :: "'a gate_args_scheme \<Rightarrow> bool" where
  "well_shaped a =
     (list_all (\<lambda>row. length row = num_experts a) (logits a) \<and>
      (case input_mask a of None \<Rightarrow> True | Some pad \<Rightarrow> length pad = length (logits a)))"

section \<open>top1gating\<close>

text \<open>Lines 43 to 47: the capacity of one call.\<close>

definition top1_capacity :: "top1_args \<Rightarrow> error + int" where
  "top1_capacity a =
     (let num_tokens = length (logits a) in
      if moe_eval_capacity_token_fraction a > 0 \<and> eval_mode a
      then Inr \<lceil>moe_eval_capacity_token_fraction a * real num_tokens\<rceil>
      else if num_experts a = 0 then Inl ZeroDivisionError
      else Inr (py_int (capacity_factor a
                  * real_of_int \<lceil>real num_tokens / real (num_experts a)\<rceil>)))"

text \<open>The local variables of \<open>top1gating\<close> where the two return paths part (line 86).\<close>

record top1_locals =
  t1_capacity :: int
  t1_gates :: "real list list"
  t1_indices1_s :: "int list"
  t1_mask1 :: "int list list"
  t1_gates1_s :: "real list"
  t1_locations1 :: "int list list"
  t1_l_aux :: real

definition top1_front :: "top1_args \<Rightarrow> error + top1_locals" where
  "top1_front a =
     (let gates = softmax (logits a) in
      case top1_capacity a of
        Inl err \<Rightarrow> Inl err
      | Inr capacity \<Rightarrow>
          if num_experts a = 0 then Inl EmptyReduction
          else
            let indices1_s = map (\<lambda>g. int (argmax g)) gates in
            case one_hot indices1_s (int (num_experts a)) of
              Inl err \<Rightarrow> Inl err
            | Inr mask1_raw \<Rightarrow>
                let mask1 = apply_padding (input_mask a) mask1_raw;
                    gates1_s = masked_row_sum gates mask1;
                    locations1 = fused_cumsum_sub_one mask1;
                    l_aux = compute_l_aux (num_experts a) gates mask1
                in Inr \<lparr>t1_capacity = capacity, t1_gates = gates,
                         t1_indices1_s = indices1_s, t1_mask1 = mask1,
                         t1_gates1_s = gates1_s, t1_locations1 = locations1,
                         t1_l_aux = l_aux\<rparr>)"

text \<open>Lines 104 to 107: the mask after capacity, and each token's slot.\<close>

definition top1_admitted :: "top1_locals \<Rightarrow> int list list" where
  "top1_admitted L = keep_lt (t1_mask1 L) (t1_locations1 L) (t1_capacity L)"

definition top1_locations1_s :: "top1_locals \<Rightarrow> int list" where
  "top1_locations1_s L = row_sum_prod (t1_locations1 L) (top1_admitted L)"

text \<open>Lines 109 to 122: the dense combine weights and dispatch mask.\<close>

definition top1_dense :: "top1_locals \<Rightarrow> error + gating_result" where
  "top1_dense L =
     (let mask1 = top1_admitted L;
          locations1_s = top1_locations1_s L;
          gates1 = map2 (\<lambda>g m. map (\<lambda>x. g * real_of_int x) m) (t1_gates1_s L) mask1
      in case one_hot locations1_s (t1_capacity L) of
           Inl err \<Rightarrow> Inl err
         | Inr locations1_sc \<Rightarrow>
             let combine1_sec = bmm_outer gates1 locations1_sc;
                 dispatch_mask = to_bool combine1_sec
             in Inr (Dense (t1_l_aux L) combine1_sec dispatch_mask))"

definition top1gating :: "top1_args \<Rightarrow> error + gating_result" where
  "top1gating a =
     (case top1_front a of
        Inl err \<Rightarrow> Inl err
      | Inr L \<Rightarrow>
          if has_tutel a
          then Inr (Sparse (t1_l_aux L) (t1_capacity L) (num_experts a)
                      [t1_indices1_s L]
                      [row_sum_prod (t1_locations1 L) (t1_mask1 L)]
                      [t1_gates1_s L])
          else top1_dense L)"

section \<open>top2gating\<close>

text \<open>
  The random draws of the source are arguments here: \<open>gumbel_noise s e\<close> is the entry
  \<open>[s, e]\<close> of \<open>gumbel_rsample(logits.shape)\<close> and \<open>rand_draw s\<close> the entry \<open>[s]\<close> of
  \<open>torch.rand_like(gates2_s)\<close>. The policy is the source's string.
\<close>

record top2_args = gate_args +
  second_expert_policy :: string
  normalize_gate_prob_before_dropping :: bool
  batch_prioritized_routing :: bool
  gumbel_noise :: "nat \<Rightarrow> nat \<Rightarrow> real"
  rand_draw :: "nat \<Rightarrow> real"

text \<open>Lines 263 to 267.\<close>

definition top2_capacity :: "top2_args \<Rightarrow> error + int" where
  "top2_capacity a =
     (let num_tokens = length (logits a) in
      if moe_eval_capacity_token_fraction a > 0 \<and> eval_mode a
      then Inr \<lceil>moe_eval_capacity_token_fraction a * real num_tokens\<rceil>
      else if num_experts a = 0 then Inl ZeroDivisionError
      else Inr (2 * \<lceil>real num_tokens / real (num_experts a)\<rceil>))"

text \<open>\<open>logits + gumbel_rsample(logits.shape)\<close>.\<close>

definition add_noise :: "real list list \<Rightarrow> (nat \<Rightarrow> nat \<Rightarrow> real) \<Rightarrow> real list list" where
  "add_noise t noise =
     map (\<lambda>s. map (\<lambda>e. t ! s ! e + noise s e) [0..<length (t ! s)]) [0..<length t]"

text \<open>\<open>t.masked_fill(mask.bool(), float("-inf"))\<close>, with \<open>None\<close> for \<open>-inf\<close>.\<close>

definition masked_fill_neg_inf :: "real list list \<Rightarrow> int list list \<Rightarrow> real option list list" where
  "masked_fill_neg_inf t msk =
     map2 (\<lambda>row m. map2 (\<lambda>x b. if b \<noteq> 0 then None else Some x) row m) t msk"

text \<open>\<open>torch.finfo(torch.float32).eps\<close>.\<close>

definition finfo_eps :: real where
  "finfo_eps = 1 / 2 ^ 23"

text \<open>
  The block under \<open># Normalize gate probabilities\<close>, which the source has twice:
  \<open>denom_s = clamp(gates1_s + gates2_s, min=eps)\<close>, then both divided by it.
\<close>

definition normalize_pair :: "real list \<Rightarrow> real list \<Rightarrow> real list \<times> real list" where
  "normalize_pair gates1_s gates2_s =
     (let denom_s = map2 (\<lambda>x y. max (x + y) finfo_eps) gates1_s gates2_s
      in (map2 (\<lambda>x d. x / d) gates1_s denom_s, map2 (\<lambda>x d. x / d) gates2_s denom_s))"

text \<open>
  Lines 293 to 295: \<open>sampled = (2 * gates2_s) > torch.rand_like(gates2_s)\<close>, and the rows
  of \<open>mask2\<close> multiplied by it.
\<close>

definition random_keep :: "int list list \<Rightarrow> real list \<Rightarrow> (nat \<Rightarrow> real) \<Rightarrow> int list list" where
  "random_keep mask2 gates2_s rnd =
     map (\<lambda>s. map (\<lambda>x. x * (if 2 * gates2_s ! s > rnd s then 1 else 0)) (mask2 ! s))
       [0..<length mask2]"

text \<open>
  \<open>keys.argsort(dim=0)\<close>, ascending. Equal keys keep their order here (a stable sort);
  torch leaves the order of equal keys open.
\<close>

definition argsort :: "'a::linorder list \<Rightarrow> nat list" where
  "argsort keys = sort_key (\<lambda>i. keys ! i) [0..<length keys]"

text \<open>\<open>t[idx]\<close>: the rows of \<open>t\<close> picked by an index vector.\<close>

definition gather_rows :: "'a list \<Rightarrow> nat list \<Rightarrow> 'a list" where
  "gather_rows t idx = map (\<lambda>i. t ! i) idx"

text \<open>\<open>torch.sum(mask, dim=0, keepdim=True)\<close> added to every row of \<open>locations\<close>.\<close>

definition add_column_sums :: "nat \<Rightarrow> int list list \<Rightarrow> int list list \<Rightarrow> int list list" where
  "add_column_sums E locations msk =
     (let total = map (\<lambda>e. sum_list (column msk e)) [0..<E]
      in map (\<lambda>row. map2 (\<lambda>x y. x + y) row total) locations)"

text \<open>Lines 305 to 310 (and 312 to 316): the locations of one rank in priority order.\<close>

definition importance_sorted_locations :: "real list list \<Rightarrow> int list list \<Rightarrow> int list list" where
  "importance_sorted_locations gates msk =
     (let importance_scores = map (\<lambda>g. - 1 * Max (set g)) gates;
          order = argsort importance_scores;
          sorted_mask = gather_rows msk order;
          sorted_cumsum = map2 (\<lambda>c m. map2 (\<lambda>x y. x * y) c m)
                            (fused_cumsum_sub_one sorted_mask) sorted_mask
      in gather_rows sorted_cumsum (argsort order))"

text \<open>
  The local variables of \<open>top2gating\<close> at line 345: \<open>t2_mask1_raw\<close> and \<open>t2_mask2_raw\<close> are
  the one-hot masks of lines 271 and 281, \<open>t2_mask1\<close> and \<open>t2_mask2\<close> the masks the source
  saves as \<open>mask1_\<close> and \<open>mask2_\<close> (after the random policy and the padding, before the
  capacity), \<open>t2_gates1_s\<close> and \<open>t2_gates2_s\<close> the gate values as of line 291.
\<close>

record top2_locals =
  t2_capacity :: int
  t2_gates :: "real list list"
  t2_indices1_s :: "int list"
  t2_indices2_s :: "int list"
  t2_mask1_raw :: "int list list"
  t2_mask2_raw :: "int list list"
  t2_mask1 :: "int list list"
  t2_mask2 :: "int list list"
  t2_gates1_s :: "real list"
  t2_gates2_s :: "real list"
  t2_locations1 :: "int list list"
  t2_locations2 :: "int list list"
  t2_l_aux :: real

definition top2_front :: "top2_args \<Rightarrow> error + top2_locals" where
  "top2_front a =
     (let gates = softmax (logits a) in
      case top2_capacity a of
        Inl err \<Rightarrow> Inl err
      | Inr capacity \<Rightarrow>
          if num_experts a = 0 then Inl EmptyReduction
          else
            let indices1_s = map (\<lambda>g. int (argmax g)) gates in
            case one_hot indices1_s (int (num_experts a)) of
              Inl err \<Rightarrow> Inl err
            | Inr mask1_raw \<Rightarrow>
                let logits_w_noise =
                      (if second_expert_policy a = ''sampling''
                       then add_noise (logits a) (gumbel_noise a) else logits a);
                    logits_except1 = masked_fill_neg_inf logits_w_noise mask1_raw;
                    indices2_s = map (\<lambda>row. int (argmax row)) logits_except1
                in
                case one_hot indices2_s (int (num_experts a)) of
                  Inl err \<Rightarrow> Inl err
                | Inr mask2_raw \<Rightarrow>
                    let raw1_s = masked_row_sum gates mask1_raw;
                        raw2_s = masked_row_sum gates mask2_raw;
                        (gates1_s, gates2_s) =
                          (if normalize_gate_prob_before_dropping a
                           then normalize_pair raw1_s raw2_s else (raw1_s, raw2_s));
                        mask2_kept =
                          (if second_expert_policy a = ''random''
                           then random_keep mask2_raw gates2_s (rand_draw a) else mask2_raw);
                        mask1 = apply_padding (input_mask a) mask1_raw;
                        mask2 = apply_padding (input_mask a) mask2_kept;
                        (locations1, locations2) =
                          (if batch_prioritized_routing a
                           then (importance_sorted_locations gates mask1,
                                 add_column_sums (num_experts a)
                                   (importance_sorted_locations gates mask2) mask1)
                           else (fused_cumsum_sub_one mask1,
                                 add_column_sums (num_experts a)
                                   (fused_cumsum_sub_one mask2) mask1));
                        l_aux = compute_l_aux (num_experts a) gates mask1
                    in Inr \<lparr>t2_capacity = capacity, t2_gates = gates,
                             t2_indices1_s = indices1_s, t2_indices2_s = indices2_s,
                             t2_mask1_raw = mask1_raw, t2_mask2_raw = mask2_raw,
                             t2_mask1 = mask1, t2_mask2 = mask2,
                             t2_gates1_s = gates1_s, t2_gates2_s = gates2_s,
                             t2_locations1 = locations1, t2_locations2 = locations2,
                             t2_l_aux = l_aux\<rparr>)"

text \<open>Lines 346 and 347: the masks after capacity.\<close>

definition top2_admitted1 :: "top2_locals \<Rightarrow> int list list" where
  "top2_admitted1 L = keep_lt (t2_mask1 L) (t2_locations1 L) (t2_capacity L)"

definition top2_admitted2 :: "top2_locals \<Rightarrow> int list list" where
  "top2_admitted2 L = keep_lt (t2_mask2 L) (t2_locations2 L) (t2_capacity L)"

text \<open>
  Lines 383 to 391: without \<open>normalize_gate_prob_before_dropping\<close> the gate values are
  taken again from the masks after capacity and normalised then.
\<close>

definition top2_final_gates :: "top2_args \<Rightarrow> top2_locals \<Rightarrow> real list \<times> real list" where
  "top2_final_gates a L =
     (if \<not> normalize_gate_prob_before_dropping a
      then normalize_pair (masked_row_sum (t2_gates L) (top2_admitted1 L))
             (masked_row_sum (t2_gates L) (top2_admitted2 L))
      else (t2_gates1_s L, t2_gates2_s L))"

text \<open>Lines 407 and 408: each token's slot for its first and its second choice.\<close>

definition top2_locations1_s :: "top2_locals \<Rightarrow> int list" where
  "top2_locations1_s L = row_sum_prod (t2_locations1 L) (top2_admitted1 L)"

definition top2_locations2_s :: "top2_locals \<Rightarrow> int list" where
  "top2_locations2_s L = row_sum_prod (t2_locations2 L) (top2_admitted2 L)"

text \<open>Lines 410 to 430.\<close>

definition top2_dense :: "top2_args \<Rightarrow> top2_locals \<Rightarrow> error + gating_result" where
  "top2_dense a L =
     (let (gates1_s, gates2_s) = top2_final_gates a L;
          mask1 = top2_admitted1 L;
          mask2 = top2_admitted2 L;
          gates1 = map2 (\<lambda>g m. map (\<lambda>x. g * real_of_int x) m) gates1_s mask1;
          gates2 = map2 (\<lambda>g m. map (\<lambda>x. g * real_of_int x) m) gates2_s mask2
      in case one_hot (top2_locations1_s L) (t2_capacity L) of
           Inl err \<Rightarrow> Inl err
         | Inr locations1_sc \<Rightarrow>
             (case one_hot (top2_locations2_s L) (t2_capacity L) of
                Inl err \<Rightarrow> Inl err
              | Inr locations2_sc \<Rightarrow>
                  let combine1_sec = bmm_outer gates1 locations1_sc;
                      combine2_sec = bmm_outer gates2 locations2_sc;
                      combine_weights =
                        map2 (\<lambda>m1 m2. map2 (\<lambda>r1 r2. map2 (\<lambda>x y. x + y) r1 r2) m1 m2)
                          combine1_sec combine2_sec;
                      dispatch_mask = to_bool combine_weights
                  in Inr (Dense (t2_l_aux L) combine_weights dispatch_mask)))"

definition top2gating :: "top2_args \<Rightarrow> error + gating_result" where
  "top2gating a =
     (case top2_front a of
        Inl err \<Rightarrow> Inl err
      | Inr L \<Rightarrow>
          if has_tutel a
          then (let (gates1_s, gates2_s) = top2_final_gates a L
                in Inr (Sparse (t2_l_aux L) (t2_capacity L) (num_experts a)
                          [t2_indices1_s L, t2_indices2_s L]
                          [row_sum_prod (t2_locations1 L) (t2_mask1 L),
                           row_sum_prod (t2_locations2 L) (t2_mask2 L)]
                          [gates1_s, gates2_s]))
          else top2_dense a L)"

definition first_choice :: "real list list \<Rightarrow> nat \<Rightarrow> int list list" where
  "first_choice gates E = map (\<lambda>g. (replicate E 0)[argmax g := 1]) gates"

definition noisy_logits :: "top2_args \<Rightarrow> real list list" where
  "noisy_logits a =
     (if second_expert_policy a = ''sampling''
      then add_noise (logits a) (gumbel_noise a) else logits a)"

definition second_choice :: "top2_args \<Rightarrow> int list list" where
  "second_choice a =
     map (\<lambda>row. (replicate (num_experts a) 0)[argmax row := 1])
       (masked_fill_neg_inf (noisy_logits a)
          (first_choice (softmax (logits a)) (num_experts a)))"

definition early_gates :: "top2_args \<Rightarrow> real list \<times> real list" where
  "early_gates a =
     (let raw1_s = masked_row_sum (softmax (logits a))
                     (first_choice (softmax (logits a)) (num_experts a));
          raw2_s = masked_row_sum (softmax (logits a)) (second_choice a)
      in if normalize_gate_prob_before_dropping a
         then normalize_pair raw1_s raw2_s else (raw1_s, raw2_s))"

definition pre_mask1 :: "'a gate_args_scheme \<Rightarrow> int list list" where
  "pre_mask1 a =
     apply_padding (input_mask a) (first_choice (softmax (logits a)) (num_experts a))"

definition pre_mask2 :: "top2_args \<Rightarrow> int list list" where
  "pre_mask2 a =
     apply_padding (input_mask a)
       (if second_expert_policy a = ''random''
        then random_keep (second_choice a) (snd (early_gates a)) (rand_draw a)
        else second_choice a)"

definition rank_locations :: "top2_args \<Rightarrow> int list list \<Rightarrow> int list list" where
  "rank_locations a msk =
     (if batch_prioritized_routing a
      then importance_sorted_locations (softmax (logits a)) msk
      else fused_cumsum_sub_one msk)"

definition example_negative_factor :: top1_args where
  "example_negative_factor =
     \<lparr>logits = [[0]], num_experts = 1, input_mask = None, eval_mode = False,
      moe_eval_capacity_token_fraction = 1 / 4, has_tutel = False,
      capacity_factor = - 1 / 2\<rparr>"

definition example_two_tokens :: top2_args where
  "example_two_tokens =
     \<lparr>logits = [[ln 6, ln 3, 0], [0, ln 2, 0]], num_experts = 3, input_mask = None,
      eval_mode = True, moe_eval_capacity_token_fraction = 1 / 2, has_tutel = False,
      second_expert_policy = ''all'', normalize_gate_prob_before_dropping = True,
      batch_prioritized_routing = False, gumbel_noise = (\<lambda>s e. 0), rand_draw = (\<lambda>s. 0)\<rparr>"

definition example_three_tokens :: top1_args where
  "example_three_tokens =
     \<lparr>logits = [[ln 2, 0, 0], [ln 2, 0, 0], [ln 2, 0, 0]], num_experts = 3,
      input_mask = None, eval_mode = False, moe_eval_capacity_token_fraction = 1 / 4,
      has_tutel = False, capacity_factor = 1\<rparr>"

text \<open>
  A selection mask of shape \<open>(S, E)\<close>: entries 0 or 1, and at most one 1 in a row.
\<close>

definition selection_mask :: "nat \<Rightarrow> nat \<Rightarrow> int list list \<Rightarrow> bool" where
  "selection_mask S E m \<longleftrightarrow>
     length m = S \<and>
     (\<forall>s<S. length (m ! s) = E \<and>
        (\<forall>e<E. m ! s ! e = 0 \<or> m ! s ! e = 1) \<and>
        (\<forall>e<E. \<forall>e'<E. m ! s ! e = 1 \<and> m ! s ! e' = 1 \<longrightarrow> e = e'))"

text \<open>Token \<open>s\<close> is flagged in the optional padding mask.\<close>

definition padded :: "bool list option \<Rightarrow> nat \<Rightarrow> bool" where
  "padded im s = (case im of None \<Rightarrow> False | Some pad \<Rightarrow> pad ! s)"

definition example_padded :: top1_args where
  "example_padded =
     \<lparr>logits = [[0, ln 2], [ln 2, 0]], num_experts = 2, input_mask = Some [False, True],
      eval_mode = False, moe_eval_capacity_token_fraction = 1 / 4, has_tutel = False,
      capacity_factor = 1\<rparr>"

definition example_single_expert :: top2_args where
  "example_single_expert =
     \<lparr>logits = [[0], [0]], num_experts = 1, input_mask = None, eval_mode = False,
      moe_eval_capacity_token_fraction = 1 / 4, has_tutel = False,
      second_expert_policy = ''all'', normalize_gate_prob_before_dropping = False,
      batch_prioritized_routing = False, gumbel_noise = (\<lambda>s e. 0), rand_draw = (\<lambda>s. 0)\<rparr>"

text \<open>The order of priority and its inverse, as lines 305 to 310 compute them.\<close>

definition priority_order :: "real list list \<Rightarrow> nat list" where
  "priority_order gates = argsort (map (\<lambda>g. - 1 * Max (set g)) gates)"

definition example_same_choice :: top2_args where
  "example_same_choice =
     \<lparr>logits = [[ln 6, ln 3, 0], [ln 6, ln 3, 0]], num_experts = 3, input_mask = None,
      eval_mode = False, moe_eval_capacity_token_fraction = 1 / 4, has_tutel = False,
      second_expert_policy = ''all'', normalize_gate_prob_before_dropping = False,
      batch_prioritized_routing = False, gumbel_noise = (\<lambda>s e. 0), rand_draw = (\<lambda>s. 0)\<rparr>"

definition example_top1_pair :: top1_args where
  "example_top1_pair =
     \<lparr>logits = [[ln 2, 0], [ln 2, 0]], num_experts = 2, input_mask = None,
      eval_mode = False, moe_eval_capacity_token_fraction = 1 / 4, has_tutel = False,
      capacity_factor = 2\<rparr>"

text \<open>
  The number of true entries of a dispatch mask in the \<open>S \<times> C\<close> slice of expert \<open>e\<close>.
\<close>

definition dispatched_to :: "bool list list list \<Rightarrow> nat \<Rightarrow> nat" where
  "dispatched_to dispatch_mask e =
     sum_list (map (\<lambda>m. length (filter (\<lambda>b. b) (m ! e))) dispatch_mask)"

text \<open>The dense tensors of lines 110 to 117, named for the statements below.\<close>

definition slot_one_hot :: "int list \<Rightarrow> int \<Rightarrow> int list list" where
  "slot_one_hot locations_s capacity =
     map (\<lambda>i. (replicate (nat capacity) 0)[nat i := 1]) locations_s"

definition scale_rows :: "real list \<Rightarrow> int list list \<Rightarrow> real list list" where
  "scale_rows gates_s msk = map2 (\<lambda>g m. map (\<lambda>x. g * real_of_int x) m) gates_s msk"

definition top1_combine :: "top1_locals \<Rightarrow> real list list list" where
  "top1_combine L =
     bmm_outer (scale_rows (t1_gates1_s L) (top1_admitted L))
       (slot_one_hot (top1_locations1_s L) (t1_capacity L))"

definition example_zero_capacity :: top1_args where
  "example_zero_capacity =
     \<lparr>logits = [[ln 2, 0]], num_experts = 2, input_mask = None, eval_mode = False,
      moe_eval_capacity_token_fraction = 1 / 4, has_tutel = False,
      capacity_factor = 1 / 2\<rparr>"

definition add_tensors :: "real list list list \<Rightarrow> real list list list \<Rightarrow> real list list list" where
  "add_tensors t u = map2 (\<lambda>m1 m2. map2 (\<lambda>r1 r2. map2 (\<lambda>x y. x + y) r1 r2) m1 m2) t u"

definition top2_combine :: "top2_args \<Rightarrow> top2_locals \<Rightarrow> real list list list" where
  "top2_combine a L =
     add_tensors
       (bmm_outer (scale_rows (fst (top2_final_gates a L)) (top2_admitted1 L))
          (slot_one_hot (top2_locations1_s L) (t2_capacity L)))
       (bmm_outer (scale_rows (snd (top2_final_gates a L)) (top2_admitted2 L))
          (slot_one_hot (top2_locations2_s L) (t2_capacity L)))"

definition example_noise :: "nat \<Rightarrow> nat \<Rightarrow> real" where
  "example_noise s e = (if e = 2 then 5 else 0)"

definition example_draw :: "nat \<Rightarrow> real" where
  "example_draw s = 7 / 8"

definition example_sampling :: top2_args where
  "example_sampling =
     \<lparr>logits = [[0, 0, 0]], num_experts = 3, input_mask = None,
      eval_mode = False, moe_eval_capacity_token_fraction = 1 / 4, has_tutel = False,
      second_expert_policy = ''sampling'', normalize_gate_prob_before_dropping = False,
      batch_prioritized_routing = False, gumbel_noise = (\<lambda>s e. 0), rand_draw = (\<lambda>s. 0)\<rparr>"

definition example_two_tokens_after :: top2_args where
  "example_two_tokens_after =
     example_two_tokens\<lparr>normalize_gate_prob_before_dropping := False\<rparr>"

text \<open>
  The balance loss in the words of the specification: \<open>E\<^sup>2\<close> times the mean over the
  experts of the mean gate probability of the expert times the fraction of the tokens
  whose first choice is the expert.
\<close>

definition expert_gate_mean :: "real list list \<Rightarrow> nat \<Rightarrow> real" where
  "expert_gate_mean gates e = sum_list (map (\<lambda>g. g ! e) gates) / real (length gates)"

definition first_choice_count :: "int list list \<Rightarrow> nat \<Rightarrow> int" where
  "first_choice_count mask1 e = sum_list (map (\<lambda>m. m ! e) mask1)"

definition expert_fraction :: "int list list \<Rightarrow> nat \<Rightarrow> real" where
  "expert_fraction mask1 e = real_of_int (first_choice_count mask1 e) / real (length mask1)"

definition balance_loss_spec :: "nat \<Rightarrow> real list list \<Rightarrow> int list list \<Rightarrow> real" where
  "balance_loss_spec E gates mask1 =
     (real E)\<^sup>2 * (sum_list (map (\<lambda>e. expert_gate_mean gates e * expert_fraction mask1 e) [0..<E])
                    / real E)"

fun l_aux_of :: "gating_result \<Rightarrow> real" where
  "l_aux_of (Dense l combine_weights dispatch_mask) = l"
| "l_aux_of (Sparse l capacity E indices locations gates) = l"

definition example_balanced_top1 :: top1_args where
  "example_balanced_top1 =
     \<lparr>logits = [[ln 2, 0], [0, ln 2]], num_experts = 2, input_mask = None,
      eval_mode = False, moe_eval_capacity_token_fraction = 1 / 4, has_tutel = False,
      capacity_factor = 1\<rparr>"

definition example_balanced_top2 :: top2_args where
  "example_balanced_top2 =
     \<lparr>logits = [[ln 2, 0], [0, ln 2]], num_experts = 2, input_mask = None,
      eval_mode = False, moe_eval_capacity_token_fraction = 1 / 4, has_tutel = False,
      second_expert_policy = ''all'', normalize_gate_prob_before_dropping = False,
      batch_prioritized_routing = False, gumbel_noise = (\<lambda>s e. 0), rand_draw = (\<lambda>s. 0)\<rparr>"

lemma argmax_less: "xs \<noteq> [] \<Longrightarrow> argmax xs < length xs"
  by (induction xs rule: argmax.induct) (auto simp: Let_def)

lemma argmax_greatest: "i < length xs \<Longrightarrow> xs ! i \<le> xs ! argmax xs"
proof (induction xs arbitrary: i rule: argmax.induct)
  case 1
  then show ?case by simp
next
  case (2 x)
  then show ?case by simp
next
  case (3 x y ys)
  show ?case
  proof (cases i)
    case 0
    then show ?thesis by (auto simp: Let_def)
  next
    case (Suc k)
    with 3 have "(y # ys) ! k \<le> (y # ys) ! argmax (y # ys)" by simp
    with Suc show ?thesis by (auto simp: Let_def)
  qed
qed

lemma sum_list_exp_nonneg: "0 \<le> sum_list (map exp (xs :: real list))"
  by (induction xs) auto

lemma sum_list_exp_pos: "xs \<noteq> [] \<Longrightarrow> 0 < sum_list (map exp (xs :: real list))"
proof (cases xs)
  case Nil
  assume "xs \<noteq> []"
  with Nil show ?thesis by simp
next
  case (Cons a as)
  have "0 < exp a" by simp
  with sum_list_exp_nonneg [of as] Cons show ?thesis by (simp add: add_pos_nonneg)
qed

lemma softmax_row_pos: "e < length xs \<Longrightarrow> 0 < softmax_row xs ! e"
proof -
  assume e: "e < length xs"
  then have "xs \<noteq> []" by auto
  from sum_list_exp_pos [OF this] e show ?thesis by (simp add: softmax_row_def)
qed

lemma length_softmax [simp]: "length (softmax m) = length m"
  by (simp add: softmax_def)

lemma length_softmax_row [simp]: "length (softmax_row xs) = length xs"
  by (simp add: softmax_row_def)

lemma softmax_nth: "s < length m \<Longrightarrow> softmax m ! s = softmax_row (m ! s)"
  by (simp add: softmax_def)

lemma sum_list_map_divide: "sum_list (map (\<lambda>x. f x / c) xs) = sum_list (map f xs) / (c :: real)"
  by (induction xs) (auto simp: add_divide_distrib)

lemma softmax_row_sum: "xs \<noteq> [] \<Longrightarrow> sum_list (softmax_row xs) = 1"
  using sum_list_exp_pos [of xs] by (simp add: softmax_row_def sum_list_map_divide)

lemma one_hot_Inr:
  assumes "0 \<le> n" "\<forall>i \<in> set idx. 0 \<le> i \<and> i < n"
  shows "one_hot idx n = Inr (map (\<lambda>i. (replicate (nat n) 0)[nat i := 1]) idx)"
  using assms by (auto simp: one_hot_def list_ex_iff)

lemma one_hot_row_nth:
  "e < n \<Longrightarrow> (replicate n (0::int))[k := 1] ! e = (if e = k then 1 else 0)"
  by (simp add: nth_list_update)

lemma fused_cumsum_nth:
  "s < length m \<Longrightarrow> e < length (m ! s) \<Longrightarrow>
   fused_cumsum_sub_one m ! s ! e = sum_list (take s (column m e))"
  by (simp add: fused_cumsum_sub_one_def)

lemma length_fused_cumsum [simp]: "length (fused_cumsum_sub_one m) = length m"
  by (simp add: fused_cumsum_sub_one_def)

lemma length_fused_cumsum_row:
  "s < length m \<Longrightarrow> length (fused_cumsum_sub_one m ! s) = length (m ! s)"
  by (simp add: fused_cumsum_sub_one_def)

lemma keep_lt_nth:
  "s < length m \<Longrightarrow> s < length l \<Longrightarrow> e < length (m ! s) \<Longrightarrow> e < length (l ! s) \<Longrightarrow>
   keep_lt m l c ! s ! e = m ! s ! e * (if l ! s ! e < c then 1 else 0)"
  by (simp add: keep_lt_def)

lemma length_keep_lt: "length (keep_lt m l c) = min (length m) (length l)"
  by (simp add: keep_lt_def)

lemma length_keep_lt_row:
  "s < length m \<Longrightarrow> s < length l \<Longrightarrow>
   length (keep_lt m l c ! s) = min (length (m ! s)) (length (l ! s))"
  by (simp add: keep_lt_def)

lemma prefix_sum_mono:
  assumes "\<forall>x \<in> set v. (0::int) \<le> x" "i \<le> j"
  shows "sum_list (take i v) \<le> sum_list (take j v)"
proof -
  from assms(2) obtain k where j: "j = i + k" by (auto simp: le_iff_add)
  have "take j v = take i v @ take k (drop i v)"
    unfolding j by (rule take_add)
  moreover have "0 \<le> sum_list (take k (drop i v))"
  proof (rule sum_list_nonneg)
    fix x assume "x \<in> set (take k (drop i v))"
    then have "x \<in> set v" by (meson in_set_takeD in_set_dropD)
    with assms(1) show "0 \<le> x" by blast
  qed
  ultimately show ?thesis by simp
qed

lemma prefix_sum_strict:
  assumes "\<forall>x \<in> set v. (0::int) \<le> x" "i < j" "j \<le> length v" "1 \<le> v ! i"
  shows "sum_list (take i v) + 1 \<le> sum_list (take j v)"
proof -
  have "i < length v" using assms by simp
  then have "sum_list (take (Suc i) v) = sum_list (take i v) + v ! i"
    by (simp add: take_Suc_conv_app_nth)
  moreover have "sum_list (take (Suc i) v) \<le> sum_list (take j v)"
    using assms(1) by (rule prefix_sum_mono) (use assms(2) in simp)
  ultimately show ?thesis using assms(4) by linarith
qed

lemma prefix_sum_lt_total:
  assumes "\<forall>x \<in> set v. (0::int) \<le> x" "i < length v" "1 \<le> v ! i"
  shows "sum_list (take i v) < sum_list v"
  using prefix_sum_strict [OF assms(1) assms(2) order_refl assms(3)] by simp

lemma prefix_sum_nonneg:
  assumes "\<forall>x \<in> set v. (0::int) \<le> x"
  shows "0 \<le> sum_list (take i v)"
  using prefix_sum_mono [OF assms, of 0 i] by simp

lemma well_shaped_rows:
  "well_shaped a \<Longrightarrow> s < length (logits a) \<Longrightarrow> length (logits a ! s) = num_experts a"
  by (simp add: well_shaped_def list_all_length)

lemma well_shaped_pad:
  "well_shaped a \<Longrightarrow> (case input_mask a of None \<Rightarrow> True | Some pad \<Rightarrow> length pad = length (logits a))"
  by (simp add: well_shaped_def)

lemma softmax_rows:
  "well_shaped a \<Longrightarrow> s < length (logits a) \<Longrightarrow> length (softmax (logits a) ! s) = num_experts a"
  by (simp add: softmax_nth well_shaped_rows)

lemma one_hot_argmax:
  assumes "0 < E" "\<forall>g \<in> set rows. length g = E"
  shows "one_hot (map (\<lambda>g. int (argmax g)) rows) (int E)
         = Inr (map (\<lambda>g. (replicate E 0)[argmax g := 1]) rows)"
proof -
  have "\<forall>i \<in> set (map (\<lambda>g. int (argmax g)) rows). 0 \<le> i \<and> i < int E"
  proof
    fix i assume "i \<in> set (map (\<lambda>g. int (argmax g)) rows)"
    then obtain g where g: "g \<in> set rows" "i = int (argmax g)" by auto
    with assms have "g \<noteq> []" by auto
    from argmax_less [OF this] g assms show "0 \<le> i \<and> i < int E" by auto
  qed
  from one_hot_Inr [OF _ this] show ?thesis by (simp add: comp_def)
qed

lemma set_softmax_rows:
  assumes "well_shaped a"
  shows "\<forall>g \<in> set (softmax (logits a)). length g = num_experts a"
  using assms by (auto simp: softmax_def well_shaped_def list_all_iff)

lemma top1_capacity_cases:
  "top1_capacity a =
     (if moe_eval_capacity_token_fraction a > 0 \<and> eval_mode a
      then Inr \<lceil>moe_eval_capacity_token_fraction a * real (length (logits a))\<rceil>
      else if num_experts a = 0 then Inl ZeroDivisionError
      else Inr (py_int (capacity_factor a
                  * real_of_int \<lceil>real (length (logits a)) / real (num_experts a)\<rceil>)))"
  by (simp add: top1_capacity_def Let_def)

lemma top1_capacity_total:
  "0 < num_experts a \<Longrightarrow> \<exists>C. top1_capacity a = Inr C"
  by (simp add: top1_capacity_cases)

lemma top1_front_Inr:
  assumes "well_shaped a" "0 < num_experts a" "top1_capacity a = Inr C"
  shows "top1_front a =
    Inr \<lparr>t1_capacity = C, t1_gates = softmax (logits a),
         t1_indices1_s = map (\<lambda>g. int (argmax g)) (softmax (logits a)),
         t1_mask1 = apply_padding (input_mask a) (first_choice (softmax (logits a)) (num_experts a)),
         t1_gates1_s = masked_row_sum (softmax (logits a))
            (apply_padding (input_mask a) (first_choice (softmax (logits a)) (num_experts a))),
         t1_locations1 = fused_cumsum_sub_one
            (apply_padding (input_mask a) (first_choice (softmax (logits a)) (num_experts a))),
         t1_l_aux = compute_l_aux (num_experts a) (softmax (logits a))
            (apply_padding (input_mask a) (first_choice (softmax (logits a)) (num_experts a)))\<rparr>"
  using assms one_hot_argmax [OF assms(2) set_softmax_rows [OF assms(1)]]
  by (simp add: top1_front_def Let_def first_choice_def)

lemma length_add_noise [simp]: "length (add_noise t n) = length t"
  by (simp add: add_noise_def)

lemma add_noise_row: "s < length t \<Longrightarrow> length (add_noise t n ! s) = length (t ! s)"
  by (simp add: add_noise_def)

lemma noisy_logits_length [simp]: "length (noisy_logits a) = length (logits a)"
  by (simp add: noisy_logits_def)

lemma noisy_logits_row:
  "well_shaped a \<Longrightarrow> s < length (logits a) \<Longrightarrow> length (noisy_logits a ! s) = num_experts a"
  by (simp add: noisy_logits_def add_noise_row well_shaped_rows)

lemma length_first_choice [simp]: "length (first_choice g E) = length g"
  by (simp add: first_choice_def)

lemma first_choice_row: "s < length g \<Longrightarrow> length (first_choice g E ! s) = E"
  by (simp add: first_choice_def)

lemma length_masked_fill: "length (masked_fill_neg_inf t m) = min (length t) (length m)"
  by (simp add: masked_fill_neg_inf_def)

lemma masked_fill_row:
  "s < length t \<Longrightarrow> s < length m \<Longrightarrow>
   length (masked_fill_neg_inf t m ! s) = min (length (t ! s)) (length (m ! s))"
  by (simp add: masked_fill_neg_inf_def)

lemma masked_rows_length:
  assumes "well_shaped a"
  shows "\<forall>row \<in> set (masked_fill_neg_inf (noisy_logits a)
            (first_choice (softmax (logits a)) (num_experts a))). length row = num_experts a"
proof
  fix row
  assume "row \<in> set (masked_fill_neg_inf (noisy_logits a)
            (first_choice (softmax (logits a)) (num_experts a)))"
  then obtain s where s: "s < length (logits a)"
    "row = masked_fill_neg_inf (noisy_logits a)
            (first_choice (softmax (logits a)) (num_experts a)) ! s"
    by (auto simp: in_set_conv_nth length_masked_fill)
  with assms show "length row = num_experts a"
    by (simp add: masked_fill_row noisy_logits_row first_choice_row)
qed

lemma top2_capacity_cases:
  "top2_capacity a =
     (if moe_eval_capacity_token_fraction a > 0 \<and> eval_mode a
      then Inr \<lceil>moe_eval_capacity_token_fraction a * real (length (logits a))\<rceil>
      else if num_experts a = 0 then Inl ZeroDivisionError
      else Inr (2 * \<lceil>real (length (logits a)) / real (num_experts a)\<rceil>))"
  by (simp add: top2_capacity_def Let_def)

lemma top2_capacity_total:
  "0 < num_experts a \<Longrightarrow> \<exists>C. top2_capacity a = Inr C"
  by (simp add: top2_capacity_cases)

lemma top2_front_Inr:
  assumes "well_shaped a" "0 < num_experts a" "top2_capacity a = Inr C"
  shows "top2_front a =
    Inr \<lparr>t2_capacity = C, t2_gates = softmax (logits a),
         t2_indices1_s = map (\<lambda>g. int (argmax g)) (softmax (logits a)),
         t2_indices2_s = map (\<lambda>row. int (argmax row))
            (masked_fill_neg_inf (noisy_logits a)
               (first_choice (softmax (logits a)) (num_experts a))),
         t2_mask1_raw = first_choice (softmax (logits a)) (num_experts a),
         t2_mask2_raw = second_choice a,
         t2_mask1 = pre_mask1 a, t2_mask2 = pre_mask2 a,
         t2_gates1_s = fst (early_gates a), t2_gates2_s = snd (early_gates a),
         t2_locations1 = rank_locations a (pre_mask1 a),
         t2_locations2 = add_column_sums (num_experts a)
            (rank_locations a (pre_mask2 a)) (pre_mask1 a),
         t2_l_aux = compute_l_aux (num_experts a) (softmax (logits a)) (pre_mask1 a)\<rparr>"
proof -
  note oh1 = one_hot_argmax [OF assms(2) set_softmax_rows [OF assms(1)]]
  note oh2 = one_hot_argmax [OF assms(2) masked_rows_length [OF assms(1)]]
  have oh2': "one_hot (map (\<lambda>row. int (argmax row))
            (masked_fill_neg_inf (noisy_logits a)
              (first_choice (softmax (logits a)) (num_experts a))))
          (int (num_experts a)) = Inr (second_choice a)"
    using oh2 by (simp add: second_choice_def)
  show ?thesis
    unfolding top2_front_def
    using assms(2,3)
    by (simp add: oh1 oh2' Let_def noisy_logits_def [symmetric] first_choice_def [symmetric]
        early_gates_def pre_mask1_def pre_mask2_def rank_locations_def split: prod.splits)
qed

lemma top1_front_capacity:
  assumes "top1_front a = Inr L"
  shows "top1_capacity a = Inr (t1_capacity L)"
  using assms
  by (auto simp: top1_front_def Let_def split: sum.splits if_splits)

lemma top2_front_capacity:
  assumes "top2_front a = Inr L"
  shows "top2_capacity a = Inr (t2_capacity L)"
  using assms
  by (auto simp: top2_front_def Let_def split: sum.splits if_splits prod.splits)

lemma py_int_floor: "0 \<le> x \<Longrightarrow> py_int x = \<lfloor>x\<rfloor>"
  by (simp add: py_int_def)

text \<open>
  Claim C7 (amended). The capacity of one call: in both routers
  \<open>ceil(moe_eval_capacity_token_fraction * S)\<close> when the fraction is positive and
  \<open>eval_mode\<close> holds. Otherwise, with no expert the division raises; with an expert
  \<open>top1gating\<close> takes \<open>int(capacity_factor * ceil(S / E))\<close>, which is the floor of the
  product when \<open>capacity_factor\<close> is not negative and its ceiling (truncation toward
  zero) when it is negative, and \<open>top2gating\<close> takes \<open>2 * ceil(S / E)\<close>. It is computed
  once: it is the capacity every later line of the call reads.
\<close>

theorem capacity_rule:
  "top1_capacity a =
     (if moe_eval_capacity_token_fraction a > 0 \<and> eval_mode a
      then Inr \<lceil>moe_eval_capacity_token_fraction a * real (length (logits a))\<rceil>
      else if num_experts a = 0 then Inl ZeroDivisionError
      else if 0 \<le> capacity_factor a
      then Inr \<lfloor>capacity_factor a
                 * real_of_int \<lceil>real (length (logits a)) / real (num_experts a)\<rceil>\<rfloor>
      else Inr \<lceil>capacity_factor a
                 * real_of_int \<lceil>real (length (logits a)) / real (num_experts a)\<rceil>\<rceil>)
   \<and> top2_capacity b =
     (if moe_eval_capacity_token_fraction b > 0 \<and> eval_mode b
      then Inr \<lceil>moe_eval_capacity_token_fraction b * real (length (logits b))\<rceil>
      else if num_experts b = 0 then Inl ZeroDivisionError
      else Inr (2 * \<lceil>real (length (logits b)) / real (num_experts b)\<rceil>))
   \<and> (\<forall>L. top1_front a = Inr L \<longrightarrow> top1_capacity a = Inr (t1_capacity L))
   \<and> (\<forall>L. top2_front b = Inr L \<longrightarrow> top2_capacity b = Inr (t2_capacity L))"
proof -
  let ?x = "capacity_factor a
              * real_of_int \<lceil>real (length (logits a)) / real (num_experts a)\<rceil>"
  have "(0::real) \<le> real (length (logits a)) / real (num_experts a)" by simp
  then have "- 1 < real (length (logits a)) / real (num_experts a)" by linarith
  then have c: "0 \<le> \<lceil>real (length (logits a)) / real (num_experts a)\<rceil>"
    by (simp add: zero_le_ceiling)
  have "py_int ?x = \<lfloor>?x\<rfloor>" if "0 \<le> capacity_factor a"
    using that c by (intro py_int_floor mult_nonneg_nonneg) auto
  moreover have "py_int ?x = \<lceil>?x\<rceil>" if "\<not> 0 \<le> capacity_factor a"
  proof -
    have "?x \<le> 0" using that c by (intro mult_nonpos_nonneg) auto
    then show ?thesis by (cases "?x = 0") (auto simp: py_int_def)
  qed
  ultimately have one: "top1_capacity a =
     (if moe_eval_capacity_token_fraction a > 0 \<and> eval_mode a
      then Inr \<lceil>moe_eval_capacity_token_fraction a * real (length (logits a))\<rceil>
      else if num_experts a = 0 then Inl ZeroDivisionError
      else if 0 \<le> capacity_factor a
      then Inr \<lfloor>capacity_factor a
                 * real_of_int \<lceil>real (length (logits a)) / real (num_experts a)\<rceil>\<rfloor>
      else Inr \<lceil>capacity_factor a
                 * real_of_int \<lceil>real (length (logits a)) / real (num_experts a)\<rceil>\<rceil>)"
    by (simp add: top1_capacity_cases)
  have two: "top2_capacity b =
     (if moe_eval_capacity_token_fraction b > 0 \<and> eval_mode b
      then Inr \<lceil>moe_eval_capacity_token_fraction b * real (length (logits b))\<rceil>
      else if num_experts b = 0 then Inl ZeroDivisionError
      else Inr (2 * \<lceil>real (length (logits b)) / real (num_experts b)\<rceil>))"
    by (rule top2_capacity_cases)
  have three: "\<forall>L. top1_front a = Inr L \<longrightarrow> top1_capacity a = Inr (t1_capacity L)"
    using top1_front_capacity by blast
  have four: "\<forall>L. top2_front b = Inr L \<longrightarrow> top2_capacity b = Inr (t2_capacity L)"
    using top2_front_capacity by blast
  from one two three four show ?thesis by blast
qed

lemma example_three_tokens_shape: "well_shaped example_three_tokens"
  by (simp add: well_shaped_def example_three_tokens_def)

lemma example_two_tokens_shape: "well_shaped example_two_tokens"
  by (simp add: well_shaped_def example_two_tokens_def)

theorem capacity_rule_witness:
  "top1_capacity example_three_tokens = Inr 1
   \<and> top2_capacity example_two_tokens = Inr 1
   \<and> (\<exists>L. top1_front example_three_tokens = Inr L \<and> t1_capacity L = 1)
   \<and> (\<exists>L. top2_front example_two_tokens = Inr L \<and> t2_capacity L = 1)"
proof -
  have c1: "top1_capacity example_three_tokens = Inr 1"
    by (simp add: top1_capacity_cases example_three_tokens_def py_int_def)
  have c2: "top2_capacity example_two_tokens = Inr 1"
    by (simp add: top2_capacity_cases example_two_tokens_def)
  from top1_front_Inr [OF example_three_tokens_shape _ c1]
  obtain L1 where L1: "top1_front example_three_tokens = Inr L1"
    by (auto simp: example_three_tokens_def)
  from top2_front_Inr [OF example_two_tokens_shape _ c2]
  obtain L2 where L2: "top2_front example_two_tokens = Inr L2"
    by (auto simp: example_two_tokens_def)
  from capacity_rule [of example_three_tokens example_two_tokens] L1 L2 c1 c2
  show ?thesis by auto
qed

text \<open>
  The claim as written (floor in every case) fails for a negative factor: with one token,
  one expert and \<open>capacity_factor = -0.5\<close> the source computes \<open>int(-0.5) = 0\<close>, while the
  floor is \<open>-1\<close>.
\<close>

theorem capacity_floor_counterexample:
  "top1_capacity example_negative_factor = Inr 0
   \<and> \<not> (moe_eval_capacity_token_fraction example_negative_factor > 0
        \<and> eval_mode example_negative_factor)
   \<and> \<lfloor>capacity_factor example_negative_factor
        * real_of_int \<lceil>real (length (logits example_negative_factor))
                        / real (num_experts example_negative_factor)\<rceil>\<rfloor> = - 1"
proof -
  have "\<lceil>- (1 / 2) :: real\<rceil> = 0" by (rule ceiling_unique) simp_all
  then show ?thesis
    by (simp add: top1_capacity_cases example_negative_factor_def py_int_def)
qed

lemma selection_maskI:
  assumes "length m = S"
    and "\<And>s. s < S \<Longrightarrow> length (m ! s) = E"
    and "\<And>s e. s < S \<Longrightarrow> e < E \<Longrightarrow> m ! s ! e = 0 \<or> m ! s ! e = 1"
    and "\<And>s e e'. s < S \<Longrightarrow> e < E \<Longrightarrow> e' < E \<Longrightarrow> m ! s ! e = 1 \<Longrightarrow> m ! s ! e' = 1 \<Longrightarrow> e = e'"
  shows "selection_mask S E m"
  using assms unfolding selection_mask_def by blast

lemma selection_mask_length: "selection_mask S E m \<Longrightarrow> length m = S"
  by (simp add: selection_mask_def)

lemma selection_mask_row: "selection_mask S E m \<Longrightarrow> s < S \<Longrightarrow> length (m ! s) = E"
  by (simp add: selection_mask_def)

lemma selection_mask_binary:
  "selection_mask S E m \<Longrightarrow> s < S \<Longrightarrow> e < E \<Longrightarrow> m ! s ! e = 0 \<or> m ! s ! e = 1"
  by (simp add: selection_mask_def)

lemma selection_mask_unique:
  "selection_mask S E m \<Longrightarrow> s < S \<Longrightarrow> e < E \<Longrightarrow> e' < E \<Longrightarrow>
   m ! s ! e = 1 \<Longrightarrow> m ! s ! e' = 1 \<Longrightarrow> e = e'"
  unfolding selection_mask_def by blast

lemma selection_mask_scaled:
  assumes m: "selection_mask S E m"
    and len: "length m' = S" "\<And>s. s < S \<Longrightarrow> length (m' ! s) = E"
    and ent: "\<And>s e. s < S \<Longrightarrow> e < E \<Longrightarrow> m' ! s ! e = m ! s ! e * k s e"
    and k: "\<And>s e. s < S \<Longrightarrow> e < E \<Longrightarrow> k s e = 0 \<or> k s e = 1"
  shows "selection_mask S E m'"
proof (rule selection_maskI)
  show "length m' = S" by fact
  show "length (m' ! s) = E" if "s < S" for s using that len by simp
  show "m' ! s ! e = 0 \<or> m' ! s ! e = 1" if "s < S" "e < E" for s e
    using selection_mask_binary [OF m that] k [OF that] ent [OF that] by auto
  show "e = e'" if "s < S" "e < E" "e' < E" "m' ! s ! e = 1" "m' ! s ! e' = 1" for s e e'
  proof -
    have "m ! s ! e = 1"
      using selection_mask_binary [OF m that(1,2)] ent [OF that(1,2)] that(4) by auto
    moreover have "m ! s ! e' = 1"
      using selection_mask_binary [OF m that(1,3)] ent [OF that(1,3)] that(5) by auto
    ultimately show ?thesis using selection_mask_unique [OF m that(1,2,3)] by simp
  qed
qed

lemma first_choice_nth:
  "s < length g \<Longrightarrow> e < E \<Longrightarrow>
   first_choice g E ! s ! e = (if e = argmax (g ! s) then 1 else 0)"
  by (simp add: first_choice_def nth_list_update)

lemma selection_mask_first_choice: "selection_mask (length g) E (first_choice g E)"
  by (rule selection_maskI) (auto simp: first_choice_nth first_choice_row split: if_splits)

lemma length_second_choice: "length (second_choice a) = length (logits a)"
  by (simp add: second_choice_def length_masked_fill)

lemma second_choice_row:
  "s < length (logits a) \<Longrightarrow> length (second_choice a ! s) = num_experts a"
  by (simp add: second_choice_def length_masked_fill)

lemma second_choice_nth:
  assumes "s < length (logits a)" "e < num_experts a"
  shows "second_choice a ! s ! e =
     (if e = argmax (masked_fill_neg_inf (noisy_logits a)
                 (first_choice (softmax (logits a)) (num_experts a)) ! s) then 1 else 0)"
  using assms by (simp add: second_choice_def length_masked_fill nth_list_update)

lemma selection_mask_second_choice:
  "selection_mask (length (logits a)) (num_experts a) (second_choice a)"
  by (rule selection_maskI)
    (auto simp: second_choice_nth second_choice_row length_second_choice split: if_splits)

lemma length_apply_padding:
  "(case im of None \<Rightarrow> True | Some pad \<Rightarrow> length pad = length m) \<Longrightarrow>
   length (apply_padding im m) = length m"
  by (cases im) (simp_all add: apply_padding_def)

lemma apply_padding_row:
  assumes "case im of None \<Rightarrow> True | Some pad \<Rightarrow> length pad = length m" "s < length m"
  shows "apply_padding im m ! s = map (\<lambda>x. x * (if padded im s then 0 else 1)) (m ! s)"
proof (cases im)
  case None
  then show ?thesis by (simp add: apply_padding_def padded_def)
next
  case (Some pad)
  with assms have len: "length pad = length m" by simp
  show ?thesis
  proof (cases "list_ex (\<lambda>p. p) pad")
    case True
    then have "apply_padding im m = map2 (\<lambda>row p. map (\<lambda>x. x * (if p then 0 else 1)) row) m pad"
      using Some by (simp add: apply_padding_def)
    then show ?thesis using len assms(2) Some by (simp add: padded_def)
  next
    case False
    then have "\<forall>p \<in> set pad. \<not> p" by (simp add: list_ex_iff)
    moreover have "pad ! s \<in> set pad" using len assms(2) by simp
    ultimately have "\<not> pad ! s" by blast
    moreover have "apply_padding im m = m" using False Some by (simp add: apply_padding_def)
    ultimately show ?thesis using Some by (simp add: padded_def)
  qed
qed

lemma apply_padding_nth:
  assumes "case im of None \<Rightarrow> True | Some pad \<Rightarrow> length pad = length m"
    "s < length m" "e < length (m ! s)"
  shows "apply_padding im m ! s ! e = m ! s ! e * (if padded im s then 0 else 1)"
  using assms by (simp add: apply_padding_row)

lemma selection_mask_apply_padding:
  assumes "selection_mask S E m" "case im of None \<Rightarrow> True | Some pad \<Rightarrow> length pad = S"
  shows "selection_mask S E (apply_padding im m)"
proof (rule selection_mask_scaled [OF assms(1), where k = "\<lambda>s e. if padded im s then 0 else 1"])
  have pad: "case im of None \<Rightarrow> True | Some pad \<Rightarrow> length pad = length m"
    using assms by (simp add: selection_mask_length split: option.splits)
  show "length (apply_padding im m) = S"
    using length_apply_padding [OF pad] assms(1) by (simp add: selection_mask_length)
  show "length (apply_padding im m ! s) = E" if "s < S" for s
    using apply_padding_row [OF pad, of s] that assms(1)
    by (simp add: selection_mask_length selection_mask_row)
  show "apply_padding im m ! s ! e = m ! s ! e * (if padded im s then 0 else 1)"
    if "s < S" "e < E" for s e
    using apply_padding_nth [OF pad, of s e] that assms(1)
    by (simp add: selection_mask_length selection_mask_row)
  show "(if padded im s then 0 else 1) = (0::int) \<or> (if padded im s then 0 else 1) = (1::int)"
    for s by simp
qed

lemma length_random_keep [simp]: "length (random_keep m g r) = length m"
  by (simp add: random_keep_def)

lemma random_keep_row:
  "s < length m \<Longrightarrow>
   random_keep m g r ! s = map (\<lambda>x. x * (if 2 * g ! s > r s then 1 else 0)) (m ! s)"
  by (simp add: random_keep_def)

lemma selection_mask_random_keep:
  assumes "selection_mask S E m"
  shows "selection_mask S E (random_keep m g r)"
proof (rule selection_mask_scaled [OF assms, where k = "\<lambda>s e. if 2 * g ! s > r s then 1 else 0"])
  show "length (random_keep m g r) = S" using assms by (simp add: selection_mask_length)
  show "length (random_keep m g r ! s) = E" if "s < S" for s
    using that assms by (simp add: random_keep_row selection_mask_length selection_mask_row)
  show "random_keep m g r ! s ! e = m ! s ! e * (if 2 * g ! s > r s then 1 else 0)"
    if "s < S" "e < E" for s e
    using that assms by (simp add: random_keep_row selection_mask_length selection_mask_row)
  show "(if 2 * g ! s > r s then 1 else 0) = (0::int) \<or> (if 2 * g ! s > r s then 1 else 0) = (1::int)"
    for s by simp
qed

lemma selection_mask_pre_mask1:
  assumes "well_shaped a"
  shows "selection_mask (length (logits a)) (num_experts a) (pre_mask1 a)"
proof -
  have "selection_mask (length (logits a)) (num_experts a)
          (first_choice (softmax (logits a)) (num_experts a))"
    using selection_mask_first_choice [of "softmax (logits a)" "num_experts a"] by simp
  then show ?thesis
    unfolding pre_mask1_def using well_shaped_pad [OF assms]
    by (rule selection_mask_apply_padding)
qed

lemma selection_mask_pre_mask2:
  assumes "well_shaped a"
  shows "selection_mask (length (logits a)) (num_experts a) (pre_mask2 a)"
proof -
  have "selection_mask (length (logits a)) (num_experts a)
          (if second_expert_policy a = ''random''
           then random_keep (second_choice a) (snd (early_gates a)) (rand_draw a)
           else second_choice a)"
    using selection_mask_second_choice [of a]
    by (simp add: selection_mask_random_keep)
  then show ?thesis
    unfolding pre_mask2_def using well_shaped_pad [OF assms]
    by (rule selection_mask_apply_padding)
qed

lemma selection_mask_keep_lt:
  assumes "selection_mask S E m" "length l = S" "\<And>s. s < S \<Longrightarrow> length (l ! s) = E"
  shows "selection_mask S E (keep_lt m l c)"
proof (rule selection_mask_scaled [OF assms(1), where k = "\<lambda>s e. if l ! s ! e < c then 1 else 0"])
  show "length (keep_lt m l c) = S"
    using assms by (simp add: length_keep_lt selection_mask_length)
  show "length (keep_lt m l c ! s) = E" if "s < S" for s
    using that assms by (simp add: length_keep_lt_row selection_mask_length selection_mask_row)
  show "keep_lt m l c ! s ! e = m ! s ! e * (if l ! s ! e < c then 1 else 0)"
    if "s < S" "e < E" for s e
    using that assms by (simp add: keep_lt_nth selection_mask_length selection_mask_row)
  show "(if l ! s ! e < c then 1 else 0) = (0::int) \<or> (if l ! s ! e < c then 1 else 0) = (1::int)"
    for s e by simp
qed

lemma selection_mask_nonzero:
  assumes "selection_mask S E m" "s < S" "e < E" "m ! s ! e \<noteq> 0"
  shows "m ! s ! e = 1"
  using selection_mask_binary [OF assms(1,2,3)] assms(4) by blast

lemma selection_mask_filter:
  assumes "selection_mask S E m" "s < S"
  shows "length (filter (\<lambda>x. x \<noteq> 0) (m ! s)) \<le> 1"
proof -
  let ?A = "{i. i < length (m ! s) \<and> m ! s ! i \<noteq> 0}"
  have len: "length (m ! s) = E" using assms by (rule selection_mask_row)
  have "\<forall>i \<in> ?A. \<forall>j \<in> ?A. i = j"
  proof (intro ballI)
    fix i j assume "i \<in> ?A" "j \<in> ?A"
    then have i: "i < E" "m ! s ! i \<noteq> 0" and j: "j < E" "m ! s ! j \<noteq> 0"
      using len by auto
    from selection_mask_nonzero [OF assms i] selection_mask_nonzero [OF assms j]
    show "i = j" using selection_mask_unique [OF assms i(1) j(1)] by simp
  qed
  moreover have "finite ?A" by simp
  ultimately have "card ?A \<le> Suc 0" by (simp add: card_le_Suc0_iff_eq)
  then show ?thesis by (simp add: length_filter_conv_card)
qed

lemma top1_front_experts: "top1_front a = Inr L \<Longrightarrow> 0 < num_experts a"
  by (auto simp: top1_front_def Let_def split: sum.splits if_splits)

lemma top2_front_experts: "top2_front a = Inr L \<Longrightarrow> 0 < num_experts a"
  by (auto simp: top2_front_def Let_def split: sum.splits if_splits)

lemma top1_front_fields:
  assumes "well_shaped a" "top1_front a = Inr L"
  shows "t1_mask1 L = pre_mask1 a"
    and "t1_locations1 L = fused_cumsum_sub_one (pre_mask1 a)"
    and "t1_gates L = softmax (logits a)"
    and "t1_gates1_s L = masked_row_sum (softmax (logits a)) (pre_mask1 a)"
    and "t1_l_aux L = compute_l_aux (num_experts a) (softmax (logits a)) (pre_mask1 a)"
    and "top1_capacity a = Inr (t1_capacity L)"
proof -
  note c = top1_front_capacity [OF assms(2)]
  from top1_front_Inr [OF assms(1) top1_front_experts [OF assms(2)] c] assms(2)
  have L: "L = \<lparr>t1_capacity = t1_capacity L, t1_gates = softmax (logits a),
         t1_indices1_s = map (\<lambda>g. int (argmax g)) (softmax (logits a)),
         t1_mask1 = pre_mask1 a,
         t1_gates1_s = masked_row_sum (softmax (logits a)) (pre_mask1 a),
         t1_locations1 = fused_cumsum_sub_one (pre_mask1 a),
         t1_l_aux = compute_l_aux (num_experts a) (softmax (logits a)) (pre_mask1 a)\<rparr>"
    by (simp add: pre_mask1_def)
  show "t1_mask1 L = pre_mask1 a" by (subst L) simp
  show "t1_locations1 L = fused_cumsum_sub_one (pre_mask1 a)" by (subst L) simp
  show "t1_gates L = softmax (logits a)" by (subst L) simp
  show "t1_gates1_s L = masked_row_sum (softmax (logits a)) (pre_mask1 a)" by (subst L) simp
  show "t1_l_aux L = compute_l_aux (num_experts a) (softmax (logits a)) (pre_mask1 a)"
    by (subst L) simp
  show "top1_capacity a = Inr (t1_capacity L)" by (rule c)
qed

lemma pre_mask1_padded_row:
  assumes "well_shaped a" "s < length (logits a)" "padded (input_mask a) s"
  shows "list_all (\<lambda>x. x = 0) (pre_mask1 a ! s)"
proof -
  have "case input_mask a of None \<Rightarrow> True
        | Some pad \<Rightarrow> length pad = length (first_choice (softmax (logits a)) (num_experts a))"
    using well_shaped_pad [OF assms(1)] by (simp split: option.splits)
  from apply_padding_row [OF this, of s] assms(2,3)
  show ?thesis by (simp add: pre_mask1_def list_all_iff)
qed

lemma selection_mask_fused_cumsum_shape:
  assumes "selection_mask S E m"
  shows "length (fused_cumsum_sub_one m) = S"
    and "\<And>s. s < S \<Longrightarrow> length (fused_cumsum_sub_one m ! s) = E"
  using assms
  by (simp_all add: selection_mask_length length_fused_cumsum_row selection_mask_row)

lemma selection_mask_top1_admitted:
  assumes "well_shaped a" "top1_front a = Inr L"
  shows "selection_mask (length (logits a)) (num_experts a) (top1_admitted L)"
  unfolding top1_admitted_def top1_front_fields [OF assms]
  by (rule selection_mask_keep_lt [OF selection_mask_pre_mask1 [OF assms(1)]])
     (rule selection_mask_fused_cumsum_shape [OF selection_mask_pre_mask1 [OF assms(1)]])+

lemma top1_admitted_nth:
  assumes "well_shaped a" "top1_front a = Inr L" "s < length (logits a)" "e < num_experts a"
  shows "top1_admitted L ! s ! e =
         pre_mask1 a ! s ! e * (if t1_locations1 L ! s ! e < t1_capacity L then 1 else 0)"
proof -
  note sm = selection_mask_pre_mask1 [OF assms(1)]
  show ?thesis
    unfolding top1_admitted_def top1_front_fields(1) [OF assms(1,2)]
    using assms(3,4) sm
    by (subst keep_lt_nth)
       (simp_all add: top1_front_fields(2) [OF assms(1,2)] selection_mask_length
          selection_mask_row length_fused_cumsum_row)
qed

text \<open>
  Claim C8. In \<open>top1gating\<close> every row of the first-choice mask \<open>mask1\<close> (as it stands
  after line 54, and also after the capacity filter of line 105) has one entry per expert,
  at most one of them nonzero, and the row of a token flagged in the padding mask is all
  zero.
\<close>

theorem top1_mask_rows:
  assumes "well_shaped a" "top1_front a = Inr L" "s < length (logits a)"
  shows "length (t1_mask1 L ! s) = num_experts a
       \<and> length (filter (\<lambda>x. x \<noteq> 0) (t1_mask1 L ! s)) \<le> 1
       \<and> (padded (input_mask a) s \<longrightarrow> list_all (\<lambda>x. x = 0) (t1_mask1 L ! s))
       \<and> length (top1_admitted L ! s) = num_experts a
       \<and> length (filter (\<lambda>x. x \<noteq> 0) (top1_admitted L ! s)) \<le> 1
       \<and> (padded (input_mask a) s \<longrightarrow> list_all (\<lambda>x. x = 0) (top1_admitted L ! s))"
proof -
  note sm = selection_mask_pre_mask1 [OF assms(1)]
  note sa = selection_mask_top1_admitted [OF assms(1,2)]
  have m: "t1_mask1 L = pre_mask1 a" by (rule top1_front_fields(1) [OF assms(1,2)])
  have 1: "length (t1_mask1 L ! s) = num_experts a"
    unfolding m by (rule selection_mask_row [OF sm assms(3)])
  have 2: "length (filter (\<lambda>x. x \<noteq> 0) (t1_mask1 L ! s)) \<le> 1"
    unfolding m by (rule selection_mask_filter [OF sm assms(3)])
  have 3: "list_all (\<lambda>x. x = 0) (t1_mask1 L ! s)" if "padded (input_mask a) s"
    unfolding m by (rule pre_mask1_padded_row [OF assms(1,3) that])
  have 4: "length (top1_admitted L ! s) = num_experts a"
    by (rule selection_mask_row [OF sa assms(3)])
  have 5: "length (filter (\<lambda>x. x \<noteq> 0) (top1_admitted L ! s)) \<le> 1"
    by (rule selection_mask_filter [OF sa assms(3)])
  have 6: "list_all (\<lambda>x. x = 0) (top1_admitted L ! s)" if "padded (input_mask a) s"
  proof -
    have z: "pre_mask1 a ! s ! e = 0" if "e < num_experts a" for e
      using pre_mask1_padded_row [OF assms(1,3) \<open>padded (input_mask a) s\<close>] that
        selection_mask_row [OF sm assms(3)]
      by (simp add: list_all_length)
    have "top1_admitted L ! s ! e = 0" if "e < num_experts a" for e
      using top1_admitted_nth [OF assms that] z [OF that] by simp
    then show ?thesis using 4 by (simp add: list_all_length)
  qed
  from 1 2 3 4 5 6 show ?thesis by blast
qed

lemma example_padded_shape: "well_shaped example_padded"
  by (simp add: well_shaped_def example_padded_def)

theorem top1_mask_rows_witness:
  "\<exists>L. top1_front example_padded = Inr L
       \<and> length (t1_mask1 L ! 1) = 2
       \<and> length (filter (\<lambda>x. x \<noteq> 0) (t1_mask1 L ! 1)) \<le> 1
       \<and> list_all (\<lambda>x. x = 0) (t1_mask1 L ! 1)
       \<and> list_all (\<lambda>x. x = 0) (top1_admitted L ! 1)"
proof -
  have c: "top1_capacity example_padded = Inr 1"
    by (simp add: top1_capacity_cases example_padded_def py_int_def)
  from top1_front_Inr [OF example_padded_shape _ c]
  obtain L where L: "top1_front example_padded = Inr L"
    by (auto simp: example_padded_def)
  have s: "1 < length (logits example_padded)" by (simp add: example_padded_def)
  have p: "padded (input_mask example_padded) 1"
    by (simp add: example_padded_def padded_def)
  have e: "num_experts example_padded = 2" by (simp add: example_padded_def)
  from top1_mask_rows [OF example_padded_shape L s] p e L show ?thesis by auto
qed

lemma masked_fill_nth:
  assumes "s < length t" "s < length m" "e < length (t ! s)" "e < length (m ! s)"
  shows "masked_fill_neg_inf t m ! s ! e = (if m ! s ! e \<noteq> 0 then None else Some (t ! s ! e))"
  using assms by (simp add: masked_fill_neg_inf_def)

lemma top2_front_fields:
  assumes "well_shaped a" "top2_front a = Inr L"
  shows "t2_mask1_raw L = first_choice (softmax (logits a)) (num_experts a)"
    and "t2_mask2_raw L = second_choice a"
    and "t2_mask1 L = pre_mask1 a"
    and "t2_mask2 L = pre_mask2 a"
    and "t2_locations1 L = rank_locations a (pre_mask1 a)"
    and "t2_locations2 L = add_column_sums (num_experts a)
            (rank_locations a (pre_mask2 a)) (pre_mask1 a)"
    and "t2_gates L = softmax (logits a)"
    and "t2_gates1_s L = fst (early_gates a)"
    and "t2_gates2_s L = snd (early_gates a)"
    and "t2_l_aux L = compute_l_aux (num_experts a) (softmax (logits a)) (pre_mask1 a)"
    and "top2_capacity a = Inr (t2_capacity L)"
proof -
  note c = top2_front_capacity [OF assms(2)]
  from top2_front_Inr [OF assms(1) top2_front_experts [OF assms(2)] c] assms(2)
  have L: "L = \<lparr>t2_capacity = t2_capacity L, t2_gates = softmax (logits a),
         t2_indices1_s = map (\<lambda>g. int (argmax g)) (softmax (logits a)),
         t2_indices2_s = map (\<lambda>row. int (argmax row))
            (masked_fill_neg_inf (noisy_logits a)
               (first_choice (softmax (logits a)) (num_experts a))),
         t2_mask1_raw = first_choice (softmax (logits a)) (num_experts a),
         t2_mask2_raw = second_choice a,
         t2_mask1 = pre_mask1 a, t2_mask2 = pre_mask2 a,
         t2_gates1_s = fst (early_gates a), t2_gates2_s = snd (early_gates a),
         t2_locations1 = rank_locations a (pre_mask1 a),
         t2_locations2 = add_column_sums (num_experts a)
            (rank_locations a (pre_mask2 a)) (pre_mask1 a),
         t2_l_aux = compute_l_aux (num_experts a) (softmax (logits a)) (pre_mask1 a)\<rparr>"
    by simp
  show "t2_mask1_raw L = first_choice (softmax (logits a)) (num_experts a)" by (subst L) simp
  show "t2_mask2_raw L = second_choice a" by (subst L) simp
  show "t2_mask1 L = pre_mask1 a" by (subst L) simp
  show "t2_mask2 L = pre_mask2 a" by (subst L) simp
  show "t2_locations1 L = rank_locations a (pre_mask1 a)" by (subst L) simp
  show "t2_locations2 L = add_column_sums (num_experts a)
            (rank_locations a (pre_mask2 a)) (pre_mask1 a)" by (subst L) simp
  show "t2_gates L = softmax (logits a)" by (subst L) simp
  show "t2_gates1_s L = fst (early_gates a)" by (subst L) simp
  show "t2_gates2_s L = snd (early_gates a)" by (subst L) simp
  show "t2_l_aux L = compute_l_aux (num_experts a) (softmax (logits a)) (pre_mask1 a)"
    by (subst L) simp
  show "top2_capacity a = Inr (t2_capacity L)" by (rule c)
qed

text \<open>
  With two experts or more, the second arg-max never lands on the first choice: that
  entry is \<open>-inf\<close> and some other entry is a number.
\<close>

lemma second_argmax_differs:
  assumes "well_shaped a" "2 \<le> num_experts a" "s < length (logits a)"
  shows "argmax (masked_fill_neg_inf (noisy_logits a)
                 (first_choice (softmax (logits a)) (num_experts a)) ! s)
         \<noteq> argmax (softmax (logits a) ! s)"
proof
  let ?row = "masked_fill_neg_inf (noisy_logits a)
                 (first_choice (softmax (logits a)) (num_experts a)) ! s"
  let ?i = "argmax (softmax (logits a) ! s)"
  assume eq: "argmax ?row = ?i"
  have len: "length ?row = num_experts a"
    using assms by (simp add: masked_fill_row noisy_logits_row first_choice_row)
  have ne: "softmax (logits a) ! s \<noteq> []"
    using softmax_rows [OF assms(1,3)] assms(2) by auto
  have i: "?i < num_experts a"
    using argmax_less [OF ne] softmax_rows [OF assms(1,3)] by simp
  obtain j where j: "j < num_experts a" "j \<noteq> ?i"
  proof (cases "?i = 0")
    case True
    with assms(2) show ?thesis by (intro that [of 1]) auto
  next
    case False
    with assms(2) show ?thesis by (intro that [of 0]) auto
  qed
  have entry: "?row ! e = (if e = ?i then None else Some (noisy_logits a ! s ! e))"
    if "e < num_experts a" for e
    using that assms(1,3)
    by (subst masked_fill_nth)
       (simp_all add: noisy_logits_row first_choice_row first_choice_nth)
  have "?row ! j \<le> ?row ! argmax ?row"
    using j(1) len by (intro argmax_greatest) simp
  with eq entry [OF j(1)] entry [OF i] j(2) show False by simp
qed

lemma raw_masks_disjoint:
  assumes "well_shaped a" "2 \<le> num_experts a" "s < length (logits a)" "e < num_experts a"
  shows "first_choice (softmax (logits a)) (num_experts a) ! s ! e * second_choice a ! s ! e = 0"
  using second_argmax_differs [OF assms(1,2,3)] assms(3,4)
  by (simp add: first_choice_nth second_choice_nth)

lemma pre_mask1_nth:
  assumes "well_shaped a" "s < length (logits a)" "e < num_experts a"
  shows "pre_mask1 a ! s ! e = first_choice (softmax (logits a)) (num_experts a) ! s ! e
           * (if padded (input_mask a) s then 0 else 1)"
proof -
  have "case input_mask a of None \<Rightarrow> True
        | Some pad \<Rightarrow> length pad = length (first_choice (softmax (logits a)) (num_experts a))"
    using well_shaped_pad [OF assms(1)] by (simp split: option.splits)
  from apply_padding_nth [OF this, of s e] assms(2,3)
  show ?thesis by (simp add: pre_mask1_def first_choice_row)
qed

lemma pre_mask2_nth:
  assumes "well_shaped a" "s < length (logits a)" "e < num_experts a"
  shows "\<exists>k. pre_mask2 a ! s ! e = second_choice a ! s ! e * k"
proof -
  let ?m = "if second_expert_policy a = ''random''
            then random_keep (second_choice a) (snd (early_gates a)) (rand_draw a)
            else second_choice a"
  have len: "length ?m = length (logits a)" by (simp add: length_second_choice)
  have row: "length (?m ! s) = num_experts a"
    using assms(2) by (simp add: random_keep_row length_second_choice second_choice_row)
  have "case input_mask a of None \<Rightarrow> True | Some pad \<Rightarrow> length pad = length ?m"
    using well_shaped_pad [OF assms(1)]
    by (simp add: length_second_choice split: option.splits)
  from apply_padding_nth [OF this, of s e] assms(2,3) len row
  have "pre_mask2 a ! s ! e = ?m ! s ! e * (if padded (input_mask a) s then 0 else 1)"
    by (simp add: pre_mask2_def)
  moreover have "\<exists>k. ?m ! s ! e = second_choice a ! s ! e * k"
  proof (cases "second_expert_policy a = ''random''")
    case True
    then show ?thesis
      using assms(2,3)
      by (simp add: random_keep_row length_second_choice second_choice_row)
  next
    case False
    then have "?m ! s ! e = second_choice a ! s ! e * 1" by simp
    then show ?thesis by blast
  qed
  ultimately show ?thesis by (metis mult.assoc)
qed

lemma mset_argsort: "mset (argsort keys) = mset [0..<length keys]"
  by (simp add: argsort_def)

lemma length_argsort [simp]: "length (argsort keys) = length keys"
  using mset_argsort [of keys] by (metis length_upt minus_nat.diff_0 size_mset)

lemma set_argsort: "set (argsort keys) = {0..<length keys}"
  using mset_argsort [of keys] by (metis mset_eq_setD set_upt)

lemma distinct_argsort: "distinct (argsort keys)"
  using mset_argsort [of keys] by (metis distinct_upt mset_eq_imp_distinct_iff)

lemma argsort_nth_less: "s < length keys \<Longrightarrow> argsort keys ! s < length keys"
  using set_argsort [of keys] by (metis atLeastLessThan_iff length_argsort nth_mem)

lemma argsort_argsort:
  assumes "s < length keys"
  shows "argsort keys ! (argsort (argsort keys) ! s) = s"
proof -
  let ?p = "argsort keys"
  let ?q = "argsort ?p"
  let ?n = "length keys"
  have "sorted (map (\<lambda>i. ?p ! i) ?q)"
    unfolding argsort_def [of ?p] by (rule sorted_sort_key)
  moreover have "mset (map (\<lambda>i. ?p ! i) ?q) = mset [0..<?n]"
  proof -
    have "mset (map (\<lambda>i. ?p ! i) ?q) = image_mset (\<lambda>i. ?p ! i) (mset ?q)" by simp
    also have "mset ?q = mset [0..<?n]" using mset_argsort [of ?p] by simp
    also have "image_mset (\<lambda>i. ?p ! i) (mset [0..<?n]) = mset (map (\<lambda>i. ?p ! i) [0..<?n])"
      by simp
    also have "map (\<lambda>i. ?p ! i) [0..<?n] = ?p"
      using map_nth [of ?p] by simp
    also have "mset ?p = mset [0..<?n]" by (rule mset_argsort)
    finally show ?thesis .
  qed
  ultimately have "sort [0..<?n] = map (\<lambda>i. ?p ! i) ?q"
    by (intro properties_for_sort) simp_all
  then have "map (\<lambda>i. ?p ! i) ?q = [0..<?n]" by (simp add: sorted_sort_id)
  then have "map (\<lambda>i. ?p ! i) ?q ! s = [0..<?n] ! s" by simp
  with assms show ?thesis by simp
qed

lemma argsort_argsort_inj:
  assumes "s < length keys" "t < length keys" "s \<noteq> t"
  shows "argsort (argsort keys) ! s \<noteq> argsort (argsort keys) ! t"
  using distinct_argsort [of "argsort keys"] assms
  by (simp add: nth_eq_iff_index_eq)

lemma sum_list_gather:
  assumes "mset p = mset [0..<length v]"
  shows "sum_list (map (\<lambda>i. v ! i) p) = sum_list (v :: int list)"
proof -
  have "mset (map (\<lambda>i. v ! i) p) = image_mset (\<lambda>i. v ! i) (mset [0..<length v])"
    using assms by simp
  also have "\<dots> = mset (map (\<lambda>i. v ! i) [0..<length v])" by simp
  also have "map (\<lambda>i. v ! i) [0..<length v] = v" by (rule map_nth)
  finally have "mset (map (\<lambda>i. v ! i) p) = mset v" .
  then show ?thesis by (metis sum_mset_sum_list)
qed

lemma set_gather:
  assumes "set p \<subseteq> {0..<length v}"
  shows "set (map (\<lambda>i. v ! i) p) \<subseteq> set v"
  using assms by auto

lemma length_column [simp]: "length (column m e) = length m"
  by (simp add: column_def)

lemma column_nth: "s < length m \<Longrightarrow> column m e ! s = m ! s ! e"
  by (simp add: column_def)

lemma selection_mask_column_nonneg:
  assumes "selection_mask S E m" "e < E"
  shows "\<forall>x \<in> set (column m e). 0 \<le> x"
proof
  fix x assume "x \<in> set (column m e)"
  then obtain s where s: "s < length m" "x = m ! s ! e"
    by (auto simp: column_def in_set_conv_nth)
  with assms have "s < S" by (simp add: selection_mask_length)
  from selection_mask_binary [OF assms(1) this assms(2)] s show "0 \<le> x" by auto
qed

lemma length_priority_order [simp]: "length (priority_order gates) = length gates"
  by (simp add: priority_order_def)

lemma priority_order_less:
  "k < length gates \<Longrightarrow> priority_order gates ! k < length gates"
  using argsort_nth_less [of k "map (\<lambda>g. - 1 * Max (set g)) gates"]
  by (simp add: priority_order_def)

lemma priority_rank_less:
  "s < length gates \<Longrightarrow> argsort (priority_order gates) ! s < length gates"
  using argsort_nth_less [of s "priority_order gates"] by simp

lemma priority_order_inverse:
  "s < length gates \<Longrightarrow> priority_order gates ! (argsort (priority_order gates) ! s) = s"
  using argsort_argsort [of s "map (\<lambda>g. - 1 * Max (set g)) gates"]
  by (simp add: priority_order_def)

lemma priority_rank_inj:
  "s < length gates \<Longrightarrow> t < length gates \<Longrightarrow> s \<noteq> t \<Longrightarrow>
   argsort (priority_order gates) ! s \<noteq> argsort (priority_order gates) ! t"
  using argsort_argsort_inj [of s "map (\<lambda>g. - 1 * Max (set g)) gates" t]
  by (simp add: priority_order_def)

lemma mset_priority_order: "mset (priority_order gates) = mset [0..<length gates]"
  using mset_argsort [of "map (\<lambda>g. - 1 * Max (set g)) gates"]
  by (simp add: priority_order_def)

lemma set_priority_order: "set (priority_order gates) = {0..<length gates}"
  using set_argsort [of "map (\<lambda>g. - 1 * Max (set g)) gates"]
  by (simp add: priority_order_def)

lemma column_gather:
  assumes "length m = length gates"
  shows "column (gather_rows m (priority_order gates)) e
         = map (\<lambda>i. column m e ! i) (priority_order gates)"
proof -
  have "\<forall>i \<in> set (priority_order gates). i < length m"
    using set_priority_order [of gates] assms by simp
  then show ?thesis
    by (simp add: column_def gather_rows_def)
qed

lemma importance_sorted_unfold:
  "importance_sorted_locations gates m =
     gather_rows
       (map2 (\<lambda>c r. map2 (\<lambda>x y. x * y) c r)
          (fused_cumsum_sub_one (gather_rows m (priority_order gates)))
          (gather_rows m (priority_order gates)))
       (argsort (priority_order gates))"
  by (simp add: importance_sorted_locations_def priority_order_def Let_def)

lemma importance_sorted_length:
  "length (importance_sorted_locations gates m) = length gates"
  by (simp add: importance_sorted_unfold gather_rows_def)

lemma importance_sorted_row_eq:
  assumes "selection_mask S E m" "length gates = S" "s < S"
  shows "importance_sorted_locations gates m ! s
         = map (\<lambda>e. sum_list (take (argsort (priority_order gates) ! s)
                      (map (\<lambda>i. column m e ! i) (priority_order gates))) * m ! s ! e)
             [0..<E]"
proof -
  let ?p = "priority_order gates"
  let ?q = "argsort ?p"
  let ?sm = "gather_rows m ?p"
  let ?k = "?q ! s"
  have lm: "length m = length gates" using assms by (simp add: selection_mask_length)
  have k: "?k < S" using priority_rank_less [of s gates] assms by simp
  have pk: "?p ! ?k = s" using priority_order_inverse [of s gates] assms by simp
  have lsm: "length ?sm = S" using assms by (simp add: gather_rows_def)
  have smk: "?sm ! ?k = m ! s" using k assms pk by (simp add: gather_rows_def)
  have row: "length (m ! s) = E" by (rule selection_mask_row [OF assms(1,3)])
  have "importance_sorted_locations gates m ! s
        = map2 (\<lambda>x y. x * y) (fused_cumsum_sub_one ?sm ! ?k) (?sm ! ?k)"
    using assms(2,3) k lsm
    by (simp add: importance_sorted_unfold gather_rows_def [of _ ?q])
  also have "fused_cumsum_sub_one ?sm ! ?k
             = map (\<lambda>e. sum_list (take ?k (column ?sm e))) [0..<E]"
    using k lsm smk row by (simp add: fused_cumsum_sub_one_def)
  also have "map2 (\<lambda>x y. x * y) (map (\<lambda>e. sum_list (take ?k (column ?sm e))) [0..<E]) (?sm ! ?k)
             = map (\<lambda>e. sum_list (take ?k (column ?sm e)) * m ! s ! e) [0..<E]"
    using row smk by (intro nth_equalityI) simp_all
  finally show ?thesis by (simp add: column_gather [OF lm])
qed

lemma importance_sorted_nth:
  assumes "selection_mask S E m" "length gates = S" "s < S" "e < E"
  shows "importance_sorted_locations gates m ! s ! e
         = sum_list (take (argsort (priority_order gates) ! s)
                      (map (\<lambda>i. column m e ! i) (priority_order gates))) * m ! s ! e"
  using assms(4) by (simp add: importance_sorted_row_eq [OF assms(1,2,3)])

lemma importance_sorted_row:
  assumes "selection_mask S E m" "length gates = S" "s < S"
  shows "length (importance_sorted_locations gates m ! s) = E"
  by (simp add: importance_sorted_row_eq [OF assms])

lemma rank_locations_length:
  assumes "selection_mask (length (logits a)) E m"
  shows "length (rank_locations a m) = length (logits a)"
  using assms
  by (simp add: rank_locations_def importance_sorted_length selection_mask_length)

lemma rank_locations_row:
  assumes "selection_mask (length (logits a)) E m" "s < length (logits a)"
  shows "length (rank_locations a m ! s) = E"
proof (cases "batch_prioritized_routing a")
  case True
  then show ?thesis
    using importance_sorted_row [OF assms(1) _ assms(2), of "softmax (logits a)"]
    by (simp add: rank_locations_def)
next
  case False
  then show ?thesis
    using assms
    by (simp add: rank_locations_def length_fused_cumsum_row selection_mask_length
        selection_mask_row)
qed

lemma rank_locations_sequence:
  assumes "selection_mask (length (logits a)) E m" "s < length (logits a)" "e < E"
    "\<not> batch_prioritized_routing a"
  shows "rank_locations a m ! s ! e = sum_list (take s (column m e))"
  using assms
  by (simp add: rank_locations_def fused_cumsum_nth selection_mask_length selection_mask_row)

lemma gathered_column:
  assumes "selection_mask S E m" "length gates = S" "e < E"
  shows "\<forall>x \<in> set (map (\<lambda>i. column m e ! i) (priority_order gates)). 0 \<le> x"
    and "length (map (\<lambda>i. column m e ! i) (priority_order gates)) = S"
    and "\<And>k. k < S \<Longrightarrow> map (\<lambda>i. column m e ! i) (priority_order gates) ! k
                         = m ! (priority_order gates ! k) ! e"
    and "sum_list (map (\<lambda>i. column m e ! i) (priority_order gates)) = sum_list (column m e)"
proof -
  have lm: "length m = S" using assms(1) by (rule selection_mask_length)
  have sub: "set (priority_order gates) \<subseteq> {0..<length (column m e)}"
    using set_priority_order [of gates] assms(2) lm by simp
  show "\<forall>x \<in> set (map (\<lambda>i. column m e ! i) (priority_order gates)). 0 \<le> x"
    using set_gather [OF sub] selection_mask_column_nonneg [OF assms(1,3)] by blast
  show "length (map (\<lambda>i. column m e ! i) (priority_order gates)) = S"
    using assms(2) by simp
  show "map (\<lambda>i. column m e ! i) (priority_order gates) ! k
          = m ! (priority_order gates ! k) ! e" if "k < S" for k
    using that assms(2) lm priority_order_less [of k gates] by (simp add: column_nth)
  show "sum_list (map (\<lambda>i. column m e ! i) (priority_order gates)) = sum_list (column m e)"
    using mset_priority_order [of gates] assms(2) lm by (intro sum_list_gather) simp
qed

text \<open>
  In either admission order, the locations of the tokens that select expert \<open>e\<close> are
  counts below the number of such tokens, and no two of them are equal.
\<close>

lemma rank_locations_bounds:
  assumes sm: "selection_mask (length (logits a)) E m"
    and s: "s < length (logits a)" and e: "e < E" and one: "m ! s ! e = 1"
  shows "0 \<le> rank_locations a m ! s ! e"
    and "rank_locations a m ! s ! e < sum_list (column m e)"
proof -
  let ?S = "length (logits a)"
  let ?v = "column m e"
  have lm: "length m = ?S" using sm by (rule selection_mask_length)
  note nn = selection_mask_column_nonneg [OF sm e]
  have both: "0 \<le> rank_locations a m ! s ! e \<and> rank_locations a m ! s ! e < sum_list ?v"
  proof (cases "batch_prioritized_routing a")
    case False
    have "rank_locations a m ! s ! e = sum_list (take s ?v)"
      by (rule rank_locations_sequence [OF sm s e False])
    moreover have "sum_list (take s ?v) < sum_list ?v"
      using s lm one by (intro prefix_sum_lt_total [OF nn]) (simp_all add: column_nth)
    ultimately show ?thesis using prefix_sum_nonneg [OF nn, of s] by simp
  next
    case True
    let ?g = "softmax (logits a)"
    let ?w = "map (\<lambda>i. ?v ! i) (priority_order ?g)"
    let ?k = "argsort (priority_order ?g) ! s"
    have lg: "length ?g = ?S" by simp
    note gc = gathered_column [OF sm lg e]
    have k: "?k < ?S" using priority_rank_less [of s ?g] s by simp
    have wk: "?w ! ?k = 1"
      using gc(3) [OF k] priority_order_inverse [of s ?g] s one by simp
    have "rank_locations a m ! s ! e = sum_list (take ?k ?w)"
      using True importance_sorted_nth [OF sm lg s e] one by (simp add: rank_locations_def)
    moreover have "sum_list (take ?k ?w) < sum_list ?w"
      using k gc(2) wk by (intro prefix_sum_lt_total [OF gc(1)]) simp_all
    ultimately show ?thesis using prefix_sum_nonneg [OF gc(1), of ?k] gc(4) by simp
  qed
  from both show "0 \<le> rank_locations a m ! s ! e" by simp
  from both show "rank_locations a m ! s ! e < sum_list (column m e)" by simp
qed

lemma rank_locations_sequence_order:
  assumes sm: "selection_mask (length (logits a)) E m"
    and "s < t" "t < length (logits a)" "e < E" "m ! s ! e = 1"
    "\<not> batch_prioritized_routing a"
  shows "rank_locations a m ! s ! e < rank_locations a m ! t ! e"
proof -
  have lm: "length m = length (logits a)" using sm by (rule selection_mask_length)
  note nn = selection_mask_column_nonneg [OF sm assms(4)]
  have s: "s < length (logits a)" using assms(2,3) by simp
  have "sum_list (take s (column m e)) + 1 \<le> sum_list (take t (column m e))"
    using assms(2,3,5) lm s by (intro prefix_sum_strict [OF nn]) (simp_all add: column_nth)
  then show ?thesis
    using rank_locations_sequence [OF sm s assms(4,6)]
      rank_locations_sequence [OF sm assms(3,4,6)] by simp
qed

lemma rank_locations_inj:
  assumes sm: "selection_mask (length (logits a)) E m"
    and s: "s < length (logits a)" and t: "t < length (logits a)" and e: "e < E"
    and ms: "m ! s ! e = 1" and mt: "m ! t ! e = 1" and ne: "s \<noteq> t"
  shows "rank_locations a m ! s ! e \<noteq> rank_locations a m ! t ! e"
proof (cases "batch_prioritized_routing a")
  case False
  from ne consider "s < t" | "t < s" by linarith
  then show ?thesis
  proof cases
    case 1
    from rank_locations_sequence_order [OF sm 1 t e ms False] show ?thesis by simp
  next
    case 2
    from rank_locations_sequence_order [OF sm 2 s e mt False] show ?thesis by simp
  qed
next
  case True
  let ?S = "length (logits a)"
  let ?g = "softmax (logits a)"
  let ?w = "map (\<lambda>i. column m e ! i) (priority_order ?g)"
  let ?q = "argsort (priority_order ?g)"
  have lg: "length ?g = ?S" by simp
  note gc = gathered_column [OF sm lg e]
  have ks: "?q ! s < ?S" using priority_rank_less [of s ?g] s by simp
  have kt: "?q ! t < ?S" using priority_rank_less [of t ?g] t by simp
  have ws: "?w ! (?q ! s) = 1"
    using gc(3) [OF ks] priority_order_inverse [of s ?g] s ms by simp
  have wt: "?w ! (?q ! t) = 1"
    using gc(3) [OF kt] priority_order_inverse [of t ?g] t mt by simp
  have rs: "rank_locations a m ! s ! e = sum_list (take (?q ! s) ?w)"
    using True importance_sorted_nth [OF sm lg s e] ms by (simp add: rank_locations_def)
  have rt: "rank_locations a m ! t ! e = sum_list (take (?q ! t) ?w)"
    using True importance_sorted_nth [OF sm lg t e] mt by (simp add: rank_locations_def)
  have "?q ! s \<noteq> ?q ! t" using priority_rank_inj [of s ?g t] s t ne by simp
  then consider "?q ! s < ?q ! t" | "?q ! t < ?q ! s" by linarith
  then show ?thesis
  proof cases
    case 1
    have "sum_list (take (?q ! s) ?w) + 1 \<le> sum_list (take (?q ! t) ?w)"
      using 1 kt gc(2) ws by (intro prefix_sum_strict [OF gc(1)]) simp_all
    with rs rt show ?thesis by simp
  next
    case 2
    have "sum_list (take (?q ! t) ?w) + 1 \<le> sum_list (take (?q ! s) ?w)"
      using 2 ks gc(2) wt by (intro prefix_sum_strict [OF gc(1)]) simp_all
    with rs rt show ?thesis by simp
  qed
qed

lemma add_column_sums_length [simp]: "length (add_column_sums E l m) = length l"
  by (simp add: add_column_sums_def Let_def)

lemma add_column_sums_row:
  "s < length l \<Longrightarrow> length (l ! s) = E \<Longrightarrow> length (add_column_sums E l m ! s) = E"
  by (simp add: add_column_sums_def Let_def)

lemma add_column_sums_nth:
  "s < length l \<Longrightarrow> length (l ! s) = E \<Longrightarrow> e < E \<Longrightarrow>
   add_column_sums E l m ! s ! e = l ! s ! e + sum_list (column m e)"
  by (simp add: add_column_sums_def Let_def)

lemma sum_list_map2_nth:
  assumes "length l = n" "length r = n"
  shows "sum_list (map2 (\<lambda>x y. x * y) l r) = (\<Sum>i<n. l ! i * (r ! i :: int))"
proof -
  have "sum_list (map2 (\<lambda>x y. x * y) l r) = (\<Sum>i = 0..<n. map2 (\<lambda>x y. x * y) l r ! i)"
    using assms by (simp add: sum_list_sum_nth)
  also have "\<dots> = (\<Sum>i = 0..<n. l ! i * r ! i)"
    using assms by (intro sum.cong) simp_all
  finally show ?thesis by (simp add: atLeast0LessThan)
qed

lemma selected_row_sum:
  assumes sm: "selection_mask S E m" and s: "s < S" and e: "e < E"
    and one: "m ! s ! e = 1" and len: "length l = E"
  shows "sum_list (map2 (\<lambda>x y. x * y) l (m ! s)) = l ! e"
proof -
  have row: "length (m ! s) = E" by (rule selection_mask_row [OF sm s])
  have other: "m ! s ! i = 0" if "i < E" "i \<noteq> e" for i
    using selection_mask_binary [OF sm s that(1)]
      selection_mask_unique [OF sm s that(1) e] one that(2) by blast
  have "sum_list (map2 (\<lambda>x y. x * y) l (m ! s)) = (\<Sum>i<E. l ! i * m ! s ! i)"
    by (rule sum_list_map2_nth [OF len row])
  also have "\<dots> = (\<Sum>i<E. if i = e then l ! e else 0)"
    using other one by (intro sum.cong) auto
  also have "\<dots> = l ! e" using e by simp
  finally show ?thesis .
qed

lemma row_sum_prod_nth:
  "s < length l \<Longrightarrow> s < length m \<Longrightarrow>
   row_sum_prod l m ! s = sum_list (map2 (\<lambda>x y. x * y) (l ! s) (m ! s))"
  by (simp add: row_sum_prod_def)

lemma length_row_sum_prod: "length (row_sum_prod l m) = min (length l) (length m)"
  by (simp add: row_sum_prod_def)

text \<open>The shapes and entries of the locals of \<open>top2gating\<close>.\<close>

lemma top2_locations_shape:
  assumes "well_shaped a" "top2_front a = Inr L"
  shows "length (t2_locations1 L) = length (logits a)"
    and "length (t2_locations2 L) = length (logits a)"
    and "\<And>s. s < length (logits a) \<Longrightarrow> length (t2_locations1 L ! s) = num_experts a"
    and "\<And>s. s < length (logits a) \<Longrightarrow> length (t2_locations2 L ! s) = num_experts a"
proof -
  note f = top2_front_fields [OF assms]
  note m1 = selection_mask_pre_mask1 [OF assms(1)]
  note m2 = selection_mask_pre_mask2 [OF assms(1)]
  show "length (t2_locations1 L) = length (logits a)"
    unfolding f by (rule rank_locations_length [OF m1])
  show "length (t2_locations2 L) = length (logits a)"
    unfolding f by (simp add: rank_locations_length [OF m2])
  show "length (t2_locations1 L ! s) = num_experts a" if "s < length (logits a)" for s
    unfolding f by (rule rank_locations_row [OF m1 that])
  show "length (t2_locations2 L ! s) = num_experts a" if "s < length (logits a)" for s
    unfolding f using that
    by (intro add_column_sums_row) (simp_all add: rank_locations_length [OF m2]
        rank_locations_row [OF m2])
qed

lemma top2_locations2_nth:
  assumes "well_shaped a" "top2_front a = Inr L" "s < length (logits a)" "e < num_experts a"
  shows "t2_locations2 L ! s ! e
         = rank_locations a (pre_mask2 a) ! s ! e + sum_list (column (pre_mask1 a) e)"
  unfolding top2_front_fields [OF assms(1,2)]
  using assms(3,4) selection_mask_pre_mask2 [OF assms(1)]
  by (intro add_column_sums_nth) (simp_all add: rank_locations_length rank_locations_row)

lemma selection_mask_top2_admitted:
  assumes "well_shaped a" "top2_front a = Inr L"
  shows "selection_mask (length (logits a)) (num_experts a) (top2_admitted1 L)"
    and "selection_mask (length (logits a)) (num_experts a) (top2_admitted2 L)"
proof -
  note f = top2_front_fields [OF assms]
  note sh = top2_locations_shape [OF assms]
  show "selection_mask (length (logits a)) (num_experts a) (top2_admitted1 L)"
    unfolding top2_admitted1_def f(3)
    by (rule selection_mask_keep_lt [OF selection_mask_pre_mask1 [OF assms(1)] sh(1) sh(3)])
  show "selection_mask (length (logits a)) (num_experts a) (top2_admitted2 L)"
    unfolding top2_admitted2_def f(4)
    by (rule selection_mask_keep_lt [OF selection_mask_pre_mask2 [OF assms(1)] sh(2) sh(4)])
qed

lemma top2_admitted_nth:
  assumes "well_shaped a" "top2_front a = Inr L" "s < length (logits a)" "e < num_experts a"
  shows "top2_admitted1 L ! s ! e =
           pre_mask1 a ! s ! e * (if t2_locations1 L ! s ! e < t2_capacity L then 1 else 0)"
    and "top2_admitted2 L ! s ! e =
           pre_mask2 a ! s ! e * (if t2_locations2 L ! s ! e < t2_capacity L then 1 else 0)"
proof -
  note f = top2_front_fields [OF assms(1,2)]
  note sh = top2_locations_shape [OF assms(1,2)]
  note m1 = selection_mask_pre_mask1 [OF assms(1)]
  note m2 = selection_mask_pre_mask2 [OF assms(1)]
  show "top2_admitted1 L ! s ! e =
           pre_mask1 a ! s ! e * (if t2_locations1 L ! s ! e < t2_capacity L then 1 else 0)"
    unfolding top2_admitted1_def f(3)
    using assms(3,4) sh(1) sh(3) [OF assms(3)] m1
    by (intro keep_lt_nth) (simp_all add: selection_mask_length selection_mask_row)
  show "top2_admitted2 L ! s ! e =
           pre_mask2 a ! s ! e * (if t2_locations2 L ! s ! e < t2_capacity L then 1 else 0)"
    unfolding top2_admitted2_def f(4)
    using assms(3,4) sh(2) sh(4) [OF assms(3)] m2
    by (intro keep_lt_nth) (simp_all add: selection_mask_length selection_mask_row)
qed

text \<open>What an admitted assignment of \<open>top2gating\<close> means, rank by rank.\<close>

lemma top2_admitted1_facts:
  assumes "well_shaped a" "top2_front a = Inr L" "s < length (logits a)" "e < num_experts a"
    "top2_admitted1 L ! s ! e \<noteq> 0"
  shows "pre_mask1 a ! s ! e = 1"
    and "top2_locations1_s L ! s = rank_locations a (pre_mask1 a) ! s ! e"
    and "top2_locations1_s L ! s < t2_capacity L"
proof -
  note f = top2_front_fields [OF assms(1,2)]
  note sh = top2_locations_shape [OF assms(1,2)]
  note sa = selection_mask_top2_admitted(1) [OF assms(1,2)]
  note ent = top2_admitted_nth(1) [OF assms(1,2,3,4)]
  have a1: "top2_admitted1 L ! s ! e = 1"
    by (rule selection_mask_nonzero [OF sa assms(3,4,5)])
  show m: "pre_mask1 a ! s ! e = 1"
    using ent a1 by (auto split: if_splits)
  have lt: "t2_locations1 L ! s ! e < t2_capacity L"
    using ent a1 by (auto split: if_splits)
  have "top2_locations1_s L ! s = t2_locations1 L ! s ! e"
    unfolding top2_locations1_s_def
    using assms(3) sh(1) selection_mask_length [OF sa]
      selected_row_sum [OF sa assms(3,4) a1 sh(3) [OF assms(3)]]
    by (simp add: row_sum_prod_nth)
  then show "top2_locations1_s L ! s = rank_locations a (pre_mask1 a) ! s ! e"
    and "top2_locations1_s L ! s < t2_capacity L"
    using lt by (simp_all add: f(5))
qed

lemma top2_admitted2_facts:
  assumes "well_shaped a" "top2_front a = Inr L" "s < length (logits a)" "e < num_experts a"
    "top2_admitted2 L ! s ! e \<noteq> 0"
  shows "pre_mask2 a ! s ! e = 1"
    and "top2_locations2_s L ! s
         = rank_locations a (pre_mask2 a) ! s ! e + sum_list (column (pre_mask1 a) e)"
    and "top2_locations2_s L ! s < t2_capacity L"
proof -
  note sh = top2_locations_shape [OF assms(1,2)]
  note sa = selection_mask_top2_admitted(2) [OF assms(1,2)]
  note ent = top2_admitted_nth(2) [OF assms(1,2,3,4)]
  have a2: "top2_admitted2 L ! s ! e = 1"
    by (rule selection_mask_nonzero [OF sa assms(3,4,5)])
  show m: "pre_mask2 a ! s ! e = 1"
    using ent a2 by (auto split: if_splits)
  have lt: "t2_locations2 L ! s ! e < t2_capacity L"
    using ent a2 by (auto split: if_splits)
  have "top2_locations2_s L ! s = t2_locations2 L ! s ! e"
    unfolding top2_locations2_s_def
    using assms(3) sh(2) selection_mask_length [OF sa]
      selected_row_sum [OF sa assms(3,4) a2 sh(4) [OF assms(3)]]
    by (simp add: row_sum_prod_nth)
  then show "top2_locations2_s L ! s
         = rank_locations a (pre_mask2 a) ! s ! e + sum_list (column (pre_mask1 a) e)"
    and "top2_locations2_s L ! s < t2_capacity L"
    using lt top2_locations2_nth [OF assms(1,2,3,4)] by simp_all
qed

lemma top1_admitted_facts:
  assumes "well_shaped a" "top1_front a = Inr L" "s < length (logits a)" "e < num_experts a"
    "top1_admitted L ! s ! e \<noteq> 0"
  shows "pre_mask1 a ! s ! e = 1"
    and "top1_locations1_s L ! s = sum_list (take s (column (pre_mask1 a) e))"
    and "top1_locations1_s L ! s < t1_capacity L"
proof -
  note f = top1_front_fields [OF assms(1,2)]
  note m1 = selection_mask_pre_mask1 [OF assms(1)]
  note sa = selection_mask_top1_admitted [OF assms(1,2)]
  note ent = top1_admitted_nth [OF assms(1,2,3,4)]
  have a1: "top1_admitted L ! s ! e = 1"
    by (rule selection_mask_nonzero [OF sa assms(3,4,5)])
  show m: "pre_mask1 a ! s ! e = 1"
    using ent a1 by (auto split: if_splits)
  have lt: "t1_locations1 L ! s ! e < t1_capacity L"
    using ent a1 by (auto split: if_splits)
  have row: "length (t1_locations1 L ! s) = num_experts a"
    unfolding f using assms(3) m1
    by (simp add: length_fused_cumsum_row selection_mask_length selection_mask_row)
  have "top1_locations1_s L ! s = t1_locations1 L ! s ! e"
    unfolding top1_locations1_s_def
    using assms(3) selection_mask_length [OF sa] selection_mask_length [OF m1]
      selected_row_sum [OF sa assms(3,4) a1 row]
    by (simp add: row_sum_prod_nth f(2))
  moreover have "t1_locations1 L ! s ! e = sum_list (take s (column (pre_mask1 a) e))"
    unfolding f using assms(3,4) m1
    by (simp add: fused_cumsum_nth selection_mask_length selection_mask_row)
  ultimately show "top1_locations1_s L ! s = sum_list (take s (column (pre_mask1 a) e))"
    and "top1_locations1_s L ! s < t1_capacity L"
    using lt by simp_all
qed

text \<open>
  Claim C10. In \<open>top2gating\<close>, for one expert \<open>e\<close>: two different tokens admitted by their
  first choice have different slots, two different tokens admitted by their second choice
  have different slots, and every first-choice slot is strictly below every second-choice
  slot (the second-choice locations are offset by the number of first choices of \<open>e\<close>
  before the capacity filter). Every admitted slot lies in \<open>[0, capacity)\<close>. So no
  \<open>(expert, slot)\<close> position is claimed twice. This holds in sequence order and in
  batch-prioritized order.
\<close>

theorem top2_slots_distinct:
  assumes "well_shaped a" "top2_front a = Inr L"
    "s < length (logits a)" "t < length (logits a)" "e < num_experts a"
  shows "(top2_admitted1 L ! s ! e \<noteq> 0 \<and> top2_admitted1 L ! t ! e \<noteq> 0 \<and> s \<noteq> t
            \<longrightarrow> top2_locations1_s L ! s \<noteq> top2_locations1_s L ! t)
       \<and> (top2_admitted2 L ! s ! e \<noteq> 0 \<and> top2_admitted2 L ! t ! e \<noteq> 0 \<and> s \<noteq> t
            \<longrightarrow> top2_locations2_s L ! s \<noteq> top2_locations2_s L ! t)
       \<and> (top2_admitted1 L ! s ! e \<noteq> 0 \<and> top2_admitted2 L ! t ! e \<noteq> 0
            \<longrightarrow> top2_locations1_s L ! s < top2_locations2_s L ! t)
       \<and> (top2_admitted1 L ! s ! e \<noteq> 0
            \<longrightarrow> 0 \<le> top2_locations1_s L ! s \<and> top2_locations1_s L ! s < t2_capacity L)
       \<and> (top2_admitted2 L ! s ! e \<noteq> 0
            \<longrightarrow> 0 \<le> top2_locations2_s L ! s \<and> top2_locations2_s L ! s < t2_capacity L)"
proof -
  note m1 = selection_mask_pre_mask1 [OF assms(1)]
  note m2 = selection_mask_pre_mask2 [OF assms(1)]
  have total: "0 \<le> sum_list (column (pre_mask1 a) e)"
    using selection_mask_column_nonneg [OF m1 assms(5)] by (intro sum_list_nonneg) blast
  have 1: "top2_locations1_s L ! s \<noteq> top2_locations1_s L ! t"
    if "top2_admitted1 L ! s ! e \<noteq> 0" "top2_admitted1 L ! t ! e \<noteq> 0" "s \<noteq> t"
    using top2_admitted1_facts(1,2) [OF assms(1,2,3,5) that(1)]
      top2_admitted1_facts(1,2) [OF assms(1,2,4,5) that(2)]
      rank_locations_inj [OF m1 assms(3,4,5) _ _ that(3)]
    by simp
  have 2: "top2_locations2_s L ! s \<noteq> top2_locations2_s L ! t"
    if "top2_admitted2 L ! s ! e \<noteq> 0" "top2_admitted2 L ! t ! e \<noteq> 0" "s \<noteq> t"
    using top2_admitted2_facts(1,2) [OF assms(1,2,3,5) that(1)]
      top2_admitted2_facts(1,2) [OF assms(1,2,4,5) that(2)]
      rank_locations_inj [OF m2 assms(3,4,5) _ _ that(3)]
    by simp
  have 3: "top2_locations1_s L ! s < top2_locations2_s L ! t"
    if "top2_admitted1 L ! s ! e \<noteq> 0" "top2_admitted2 L ! t ! e \<noteq> 0"
  proof -
    note a = top2_admitted1_facts(1,2) [OF assms(1,2,3,5) that(1)]
    note b = top2_admitted2_facts(1,2) [OF assms(1,2,4,5) that(2)]
    from rank_locations_bounds(2) [OF m1 assms(3,5) a(1)]
      rank_locations_bounds(1) [OF m2 assms(4,5) b(1)] a(2) b(2)
    show ?thesis by simp
  qed
  have 4: "0 \<le> top2_locations1_s L ! s \<and> top2_locations1_s L ! s < t2_capacity L"
    if "top2_admitted1 L ! s ! e \<noteq> 0"
    using top2_admitted1_facts [OF assms(1,2,3,5) that]
      rank_locations_bounds(1) [OF m1 assms(3,5)] by simp
  have 5: "0 \<le> top2_locations2_s L ! s \<and> top2_locations2_s L ! s < t2_capacity L"
    if "top2_admitted2 L ! s ! e \<noteq> 0"
    using top2_admitted2_facts [OF assms(1,2,3,5) that]
      rank_locations_bounds(1) [OF m2 assms(3,5)] total by simp
  from 1 2 3 4 5 show ?thesis by blast
qed

text \<open>
  Claim C5 (with \<open>fused_cumsum_sub_one\<close> as the spec gives it). In sequence order, in
  \<open>top1gating\<close> and, when \<open>batch_prioritized_routing\<close> is off, in \<open>top2gating\<close>: if token
  \<open>i\<close> precedes token \<open>j\<close> and both are admitted to expert \<open>e\<close> by their first choice, the
  slot of \<open>i\<close> is strictly below the slot of \<open>j\<close>; and each of these slots is the number
  of entries of the first-choice mask column of \<open>e\<close> before the token, in token order.
\<close>

theorem sequence_admission_order:
  assumes "well_shaped a" "top1_front a = Inr L"
    "i < j" "j < length (logits a)" "e < num_experts a"
    "top1_admitted L ! i ! e \<noteq> 0" "top1_admitted L ! j ! e \<noteq> 0"
    and "well_shaped b" "top2_front b = Inr M" "\<not> batch_prioritized_routing b"
    "k < l" "l < length (logits b)" "d < num_experts b"
    "top2_admitted1 M ! k ! d \<noteq> 0" "top2_admitted1 M ! l ! d \<noteq> 0"
  shows "top1_locations1_s L ! i < top1_locations1_s L ! j
       \<and> top1_locations1_s L ! i = sum_list (take i (column (t1_mask1 L) e))
       \<and> top1_locations1_s L ! j = sum_list (take j (column (t1_mask1 L) e))
       \<and> top2_locations1_s M ! k < top2_locations1_s M ! l
       \<and> top2_locations1_s M ! k = sum_list (take k (column (t2_mask1 M) d))
       \<and> top2_locations1_s M ! l = sum_list (take l (column (t2_mask1 M) d))"
proof -
  have i: "i < length (logits a)" using assms(3,4) by simp
  have k: "k < length (logits b)" using assms(11,12) by simp
  note ma = selection_mask_pre_mask1 [OF assms(1)]
  note mb = selection_mask_pre_mask1 [OF assms(8)]
  note fi = top1_admitted_facts [OF assms(1,2) i assms(5,6)]
  note fj = top1_admitted_facts [OF assms(1,2,4,5,7)]
  note gk = top2_admitted1_facts [OF assms(8,9) k assms(13,14)]
  note gl = top2_admitted1_facts [OF assms(8,9,12,13,15)]
  have "sum_list (take i (column (pre_mask1 a) e)) + 1
          \<le> sum_list (take j (column (pre_mask1 a) e))"
    using assms(3,4) i fi(1) selection_mask_length [OF ma]
    by (intro prefix_sum_strict [OF selection_mask_column_nonneg [OF ma assms(5)]])
       (simp_all add: column_nth)
  then have 1: "top1_locations1_s L ! i < top1_locations1_s L ! j"
    using fi(2) fj(2) by simp
  have 2: "top2_locations1_s M ! k < top2_locations1_s M ! l"
    using rank_locations_sequence_order [OF mb assms(11,12,13) gk(1) assms(10)]
      gk(2) gl(2) by simp
  have 3: "top2_locations1_s M ! k = sum_list (take k (column (pre_mask1 b) d))"
    using gk(2) rank_locations_sequence [OF mb k assms(13,10)] by simp
  have 4: "top2_locations1_s M ! l = sum_list (take l (column (pre_mask1 b) d))"
    using gl(2) rank_locations_sequence [OF mb assms(12,13,10)] by simp
  from 1 2 3 4 fi(2) fj(2) show ?thesis
    by (simp add: top1_front_fields(1) [OF assms(1,2)] top2_front_fields(3) [OF assms(8,9)])
qed

lemmas eval_defs = softmax_def softmax_row_def one_hot_def masked_fill_neg_inf_def
  masked_row_sum_def apply_padding_def fused_cumsum_sub_one_def column_def
  add_column_sums_def compute_l_aux_def mean_dim0_def mean_def keep_lt_def
  row_sum_prod_def normalize_pair_def bmm_outer_def to_bool_def Let_def
  numeral_2_eq_2 numeral_3_eq_3

lemma example_single_expert_shape: "well_shaped example_single_expert"
  by (simp add: well_shaped_def example_single_expert_def)

lemma example_same_choice_shape: "well_shaped example_same_choice"
  by (simp add: well_shaped_def example_same_choice_def)

lemma example_top1_pair_shape: "well_shaped example_top1_pair"
  by (simp add: well_shaped_def example_top1_pair_def)

lemma example_single_expert_locals:
  "top2_front example_single_expert =
     Inr \<lparr>t2_capacity = 4, t2_gates = [[1], [1]], t2_indices1_s = [0, 0],
          t2_indices2_s = [0, 0], t2_mask1_raw = [[1], [1]], t2_mask2_raw = [[1], [1]],
          t2_mask1 = [[1], [1]], t2_mask2 = [[1], [1]], t2_gates1_s = [1, 1],
          t2_gates2_s = [1, 1], t2_locations1 = [[0], [1]], t2_locations2 = [[2], [3]],
          t2_l_aux = 1\<rparr>"
  by (simp add: top2_front_def top2_capacity_def example_single_expert_def eval_defs)

lemma example_same_choice_locals:
  "top2_front example_same_choice =
     Inr \<lparr>t2_capacity = 2,
          t2_gates = [[3 / 5, 3 / 10, 1 / 10], [3 / 5, 3 / 10, 1 / 10]],
          t2_indices1_s = [0, 0], t2_indices2_s = [1, 1],
          t2_mask1_raw = [[1, 0, 0], [1, 0, 0]], t2_mask2_raw = [[0, 1, 0], [0, 1, 0]],
          t2_mask1 = [[1, 0, 0], [1, 0, 0]], t2_mask2 = [[0, 1, 0], [0, 1, 0]],
          t2_gates1_s = [3 / 5, 3 / 5], t2_gates2_s = [3 / 10, 3 / 10],
          t2_locations1 = [[0, 0, 0], [1, 0, 0]], t2_locations2 = [[2, 0, 0], [2, 1, 0]],
          t2_l_aux = 9 / 5\<rparr>"
  by (simp add: top2_front_def top2_capacity_def example_same_choice_def eval_defs)

lemma example_top1_pair_locals:
  "top1_front example_top1_pair =
     Inr \<lparr>t1_capacity = 2, t1_gates = [[2 / 3, 1 / 3], [2 / 3, 1 / 3]],
          t1_indices1_s = [0, 0], t1_mask1 = [[1, 0], [1, 0]], t1_gates1_s = [2 / 3, 2 / 3],
          t1_locations1 = [[0, 0], [1, 0]], t1_l_aux = 4 / 3\<rparr>"
  by (simp add: top1_front_def top1_capacity_def py_int_def example_top1_pair_def eval_defs)

theorem top2_slots_distinct_witness:
  "\<exists>L. top2_front example_single_expert = Inr L
       \<and> top2_locations1_s L ! 0 \<noteq> top2_locations1_s L ! 1
       \<and> top2_locations2_s L ! 0 \<noteq> top2_locations2_s L ! 1
       \<and> top2_locations1_s L ! 0 < top2_locations2_s L ! 1
       \<and> 0 \<le> top2_locations1_s L ! 0 \<and> top2_locations1_s L ! 0 < t2_capacity L
       \<and> 0 \<le> top2_locations2_s L ! 0 \<and> top2_locations2_s L ! 0 < t2_capacity L"
proof -
  let ?L = "\<lparr>t2_capacity = 4, t2_gates = [[1], [1]], t2_indices1_s = [0, 0],
          t2_indices2_s = [0, 0], t2_mask1_raw = [[1], [1]], t2_mask2_raw = [[1], [1]],
          t2_mask1 = [[1], [1]], t2_mask2 = [[1], [1]], t2_gates1_s = [1, 1],
          t2_gates2_s = [1, 1], t2_locations1 = [[0], [1]], t2_locations2 = [[2], [3]],
          t2_l_aux = 1\<rparr>"
  note L = example_single_expert_locals
  have a1: "top2_admitted1 ?L = [[1], [1]]" by (simp add: top2_admitted1_def keep_lt_def)
  have a2: "top2_admitted2 ?L = [[1], [1]]" by (simp add: top2_admitted2_def keep_lt_def)
  have s: "0 < length (logits example_single_expert)"
    and t: "1 < length (logits example_single_expert)"
    and e: "0 < num_experts example_single_expert"
    by (simp_all add: example_single_expert_def)
  from top2_slots_distinct [OF example_single_expert_shape L s t e] a1 a2
  have "top2_locations1_s ?L ! 0 \<noteq> top2_locations1_s ?L ! 1
       \<and> top2_locations2_s ?L ! 0 \<noteq> top2_locations2_s ?L ! 1
       \<and> top2_locations1_s ?L ! 0 < top2_locations2_s ?L ! 1
       \<and> 0 \<le> top2_locations1_s ?L ! 0 \<and> top2_locations1_s ?L ! 0 < t2_capacity ?L
       \<and> 0 \<le> top2_locations2_s ?L ! 0 \<and> top2_locations2_s ?L ! 0 < t2_capacity ?L"
    by simp
  with L show ?thesis by blast
qed

theorem sequence_admission_order_witness:
  "(\<exists>L. top1_front example_top1_pair = Inr L
        \<and> top1_locations1_s L ! 0 < top1_locations1_s L ! 1
        \<and> top1_locations1_s L ! 0 = sum_list (take 0 (column (t1_mask1 L) 0))
        \<and> top1_locations1_s L ! 1 = sum_list (take 1 (column (t1_mask1 L) 0)))
   \<and> (\<exists>M. top2_front example_same_choice = Inr M
        \<and> top2_locations1_s M ! 0 < top2_locations1_s M ! 1
        \<and> top2_locations1_s M ! 0 = sum_list (take 0 (column (t2_mask1 M) 0))
        \<and> top2_locations1_s M ! 1 = sum_list (take 1 (column (t2_mask1 M) 0)))"
proof -
  let ?L = "\<lparr>t1_capacity = 2, t1_gates = [[2 / 3, 1 / 3], [2 / 3, 1 / 3]],
          t1_indices1_s = [0, 0], t1_mask1 = [[1, 0], [1, 0]], t1_gates1_s = [2 / 3, 2 / 3],
          t1_locations1 = [[0, 0], [1, 0]], t1_l_aux = 4 / 3\<rparr>"
  let ?M = "\<lparr>t2_capacity = 2,
          t2_gates = [[3 / 5, 3 / 10, 1 / 10], [3 / 5, 3 / 10, 1 / 10]],
          t2_indices1_s = [0, 0], t2_indices2_s = [1, 1],
          t2_mask1_raw = [[1, 0, 0], [1, 0, 0]], t2_mask2_raw = [[0, 1, 0], [0, 1, 0]],
          t2_mask1 = [[1, 0, 0], [1, 0, 0]], t2_mask2 = [[0, 1, 0], [0, 1, 0]],
          t2_gates1_s = [3 / 5, 3 / 5], t2_gates2_s = [3 / 10, 3 / 10],
          t2_locations1 = [[0, 0, 0], [1, 0, 0]], t2_locations2 = [[2, 0, 0], [2, 1, 0]],
          t2_l_aux = 9 / 5\<rparr>"
  note L = example_top1_pair_locals
  note M = example_same_choice_locals
  have a1: "top1_admitted ?L = [[1, 0], [1, 0]]" by (simp add: top1_admitted_def keep_lt_def)
  have b1: "top2_admitted1 ?M = [[1, 0, 0], [1, 0, 0]]"
    by (simp add: top2_admitted1_def keep_lt_def)
  have ia: "(0::nat) < 1" "1 < length (logits example_top1_pair)"
    "0 < num_experts example_top1_pair"
    by (simp_all add: example_top1_pair_def)
  have ib: "\<not> batch_prioritized_routing example_same_choice"
    "1 < length (logits example_same_choice)" "0 < num_experts example_same_choice"
    by (simp_all add: example_same_choice_def)
  have ha: "top1_admitted ?L ! 0 ! 0 \<noteq> 0" "top1_admitted ?L ! 1 ! 0 \<noteq> 0"
    by (simp_all add: a1)
  have hb: "top2_admitted1 ?M ! 0 ! 0 \<noteq> 0" "top2_admitted1 ?M ! 1 ! 0 \<noteq> 0"
    by (simp_all add: b1)
  from sequence_admission_order [OF example_top1_pair_shape L ia ha
      example_same_choice_shape M ib(1) ia(1) ib(2,3) hb] L M
  show ?thesis by blast
qed

lemma top1_front_total:
  assumes "well_shaped a" "0 < num_experts a"
  shows "\<exists>L. top1_front a = Inr L"
proof -
  from top1_capacity_total [OF assms(2)] obtain C where "top1_capacity a = Inr C" ..
  from top1_front_Inr [OF assms this] show ?thesis by blast
qed

lemma top2_front_total:
  assumes "well_shaped a" "0 < num_experts a"
  shows "\<exists>L. top2_front a = Inr L"
proof -
  from top2_capacity_total [OF assms(2)] obtain C where "top2_capacity a = Inr C" ..
  from top2_front_Inr [OF assms this] show ?thesis by blast
qed

text \<open>
  Claim C2 (amended). In \<open>top2gating\<close> with at least two experts, for every logits
  matrix, every second-expert policy (whatever the noise and the random draws) and every
  token, the first-choice mask and the second-choice mask never select the same expert:
  this holds for the one-hot masks of lines 271 and 281, for the masks after the random
  policy and the padding, and for the masks after the capacity filter.
\<close>

theorem top2_masks_disjoint:
  assumes "well_shaped a" "2 \<le> num_experts a"
  shows "\<exists>L. top2_front a = Inr L \<and>
          (\<forall>s<length (logits a). \<forall>e<num_experts a.
              t2_mask1_raw L ! s ! e * t2_mask2_raw L ! s ! e = 0
            \<and> t2_mask1 L ! s ! e * t2_mask2 L ! s ! e = 0
            \<and> top2_admitted1 L ! s ! e * top2_admitted2 L ! s ! e = 0)"
proof -
  have E: "0 < num_experts a" using assms(2) by simp
  from top2_front_total [OF assms(1) E] obtain L where L: "top2_front a = Inr L" ..
  note f = top2_front_fields [OF assms(1) L]
  have "t2_mask1_raw L ! s ! e * t2_mask2_raw L ! s ! e = 0
      \<and> t2_mask1 L ! s ! e * t2_mask2 L ! s ! e = 0
      \<and> top2_admitted1 L ! s ! e * top2_admitted2 L ! s ! e = 0"
    if s: "s < length (logits a)" and e: "e < num_experts a" for s e
  proof -
    have raw: "first_choice (softmax (logits a)) (num_experts a) ! s ! e
                 * second_choice a ! s ! e = 0"
      by (rule raw_masks_disjoint [OF assms s e])
    from pre_mask2_nth [OF assms(1) s e] obtain k
      where k: "pre_mask2 a ! s ! e = second_choice a ! s ! e * k" ..
    have pre: "pre_mask1 a ! s ! e * pre_mask2 a ! s ! e = 0"
      using raw k pre_mask1_nth [OF assms(1) s e] by auto
    have adm: "top2_admitted1 L ! s ! e * top2_admitted2 L ! s ! e = 0"
      using pre top2_admitted_nth [OF assms(1) L s e] by auto
    from raw pre adm show ?thesis by (simp add: f)
  qed
  with L show ?thesis by blast
qed

theorem top2_masks_disjoint_witness:
  "\<exists>L. top2_front example_same_choice = Inr L
       \<and> t2_mask1_raw L ! 0 ! 0 * t2_mask2_raw L ! 0 ! 0 = 0
       \<and> t2_mask1_raw L ! 0 ! 1 * t2_mask2_raw L ! 0 ! 1 = 0
       \<and> top2_admitted1 L ! 1 ! 1 * top2_admitted2 L ! 1 ! 1 = 0"
proof -
  have E: "2 \<le> num_experts example_same_choice" by (simp add: example_same_choice_def)
  have n: "length (logits example_same_choice) = 2" "num_experts example_same_choice = 3"
    by (simp_all add: example_same_choice_def)
  from top2_masks_disjoint [OF example_same_choice_shape E] n
  show ?thesis by auto
qed

text \<open>
  With a single expert the claim as written fails: the masked row holds only \<open>-inf\<close>,
  its arg-max is expert 0 again, and both masks select expert 0 for token 0.
\<close>

theorem top2_single_expert_counterexample:
  "\<exists>L. top2_front example_single_expert = Inr L
       \<and> num_experts example_single_expert = 1
       \<and> t2_mask1_raw L ! 0 ! 0 = 1 \<and> t2_mask2_raw L ! 0 ! 0 = 1"
  using example_single_expert_locals by (simp add: example_single_expert_def)

lemma zero_row_sum:
  assumes "length l = E" "length r = E" "\<And>e. e < E \<Longrightarrow> r ! e = 0"
  shows "sum_list (map2 (\<lambda>x y. x * y) l r) = (0::int)"
proof -
  have "sum_list (map2 (\<lambda>x y. x * y) l r) = (\<Sum>i<E. l ! i * r ! i)"
    by (rule sum_list_map2_nth [OF assms(1,2)])
  also have "\<dots> = (\<Sum>i<E. 0)" using assms(3) by (intro sum.cong) simp_all
  finally show ?thesis by simp
qed

lemma slot_row_nth:
  "c < n \<Longrightarrow> (replicate n (0::int))[k := 1] ! c = (if c = k then 1 else 0)"
  by (simp add: nth_list_update)

lemma bmm_outer_nth:
  assumes "s < length g" "s < length l" "e < length (g ! s)" "c < length (l ! s)"
  shows "bmm_outer g l ! s ! e ! c = g ! s ! e * real_of_int (l ! s ! c)"
  using assms by (simp add: bmm_outer_def)

lemma bmm_outer_shape:
  "length (bmm_outer g l) = min (length g) (length l)"
  "s < length g \<Longrightarrow> s < length l \<Longrightarrow> length (bmm_outer g l ! s) = length (g ! s)"
  "s < length g \<Longrightarrow> s < length l \<Longrightarrow> e < length (g ! s) \<Longrightarrow>
     length (bmm_outer g l ! s ! e) = length (l ! s)"
  by (simp_all add: bmm_outer_def)

lemma to_bool_nth:
  "s < length t \<Longrightarrow> e < length (t ! s) \<Longrightarrow> c < length (t ! s ! e) \<Longrightarrow>
   to_bool t ! s ! e ! c \<longleftrightarrow> t ! s ! e ! c \<noteq> 0"
  by (simp add: to_bool_def)

lemma to_bool_shape:
  "length (to_bool t) = length t"
  "s < length t \<Longrightarrow> length (to_bool t ! s) = length (t ! s)"
  "s < length t \<Longrightarrow> e < length (t ! s) \<Longrightarrow> length (to_bool t ! s ! e) = length (t ! s ! e)"
  by (simp_all add: to_bool_def)

text \<open>
  Counting: when every true entry of the slice of expert \<open>e\<close> belongs to a token that
  satisfies \<open>P1\<close> and sits at its slot \<open>f1\<close>, or to a token that satisfies \<open>P2\<close> and sits
  at its slot \<open>f2\<close>, and these slots are pairwise different and below \<open>C\<close>, the slice has
  at most \<open>C\<close> true entries.
\<close>

lemma filter_true_le:
  assumes "\<And>c. c < length row \<Longrightarrow> row ! c \<Longrightarrow> (p1 \<and> c = x1) \<or> (p2 \<and> c = x2)"
  shows "length (filter (\<lambda>b. b) row) \<le> (if p1 then 1 else 0) + (if p2 then 1 else (0::nat))"
proof -
  let ?T = "{c. c < length row \<and> row ! c}"
  let ?U = "(if p1 then {x1} else {}) \<union> (if p2 then {x2} else {})"
  have "?T \<subseteq> ?U" using assms by auto
  moreover have "finite ?U" by simp
  ultimately have "card ?T \<le> card ?U" by (rule card_mono [rotated])
  also have "card ?U \<le> card (if p1 then {x1} else {}) + card (if p2 then {x2} else {})"
    by (rule card_Un_le)
  also have "\<dots> = (if p1 then 1 else 0) + (if p2 then 1 else 0)" by simp
  finally show ?thesis by (simp add: length_filter_conv_card)
qed

lemma sum_indicator_card:
  "(\<Sum>s<(S::nat). if P s then 1 else (0::nat)) = card {s. s < S \<and> P s}"
proof -
  have "card {s \<in> {..<S}. P s} = (\<Sum>s \<in> {s \<in> {..<S}. P s}. 1)" by simp
  also have "\<dots> = (\<Sum>s<S. if P s then 1 else 0)"
    by (rule sum.inter_filter) (rule finite_lessThan)
  finally have "card {s \<in> {..<S}. P s} = (\<Sum>s<S. if P s then 1 else 0)" .
  moreover have "{s \<in> {..<S}. P s} = {s. s < S \<and> P s}" by blast
  ultimately show ?thesis by (simp only:)
qed

lemma dispatched_to_bound:
  assumes len: "length dm = S"
    and true: "\<And>s c. s < S \<Longrightarrow> c < length (dm ! s ! e) \<Longrightarrow> dm ! s ! e ! c \<Longrightarrow>
                 (P1 s \<and> c = f1 s) \<or> (P2 s \<and> c = f2 s)"
    and inj1: "\<And>s t. s < S \<Longrightarrow> t < S \<Longrightarrow> P1 s \<Longrightarrow> P1 t \<Longrightarrow> s \<noteq> t \<Longrightarrow> f1 s \<noteq> f1 t"
    and inj2: "\<And>s t. s < S \<Longrightarrow> t < S \<Longrightarrow> P2 s \<Longrightarrow> P2 t \<Longrightarrow> s \<noteq> t \<Longrightarrow> f2 s \<noteq> f2 t"
    and cross: "\<And>s t. s < S \<Longrightarrow> t < S \<Longrightarrow> P1 s \<Longrightarrow> P2 t \<Longrightarrow> f1 s \<noteq> f2 t"
    and r1: "\<And>s. s < S \<Longrightarrow> P1 s \<Longrightarrow> f1 s < C"
    and r2: "\<And>s. s < S \<Longrightarrow> P2 s \<Longrightarrow> f2 s < C"
  shows "dispatched_to dm e \<le> C"
proof -
  let ?A1 = "{s. s < S \<and> P1 s}"
  let ?A2 = "{s. s < S \<and> P2 s}"
  have fin: "finite ?A1" "finite ?A2" by simp_all
  have "dispatched_to dm e = (\<Sum>s<S. length (filter (\<lambda>b. b) (dm ! s ! e)))"
    using len by (simp add: dispatched_to_def sum_list_sum_nth atLeast0LessThan)
  also have "\<dots> \<le> (\<Sum>s<S. (if P1 s then 1 else 0) + (if P2 s then 1 else 0))"
  proof (rule sum_mono)
    fix s assume "s \<in> {..<S}"
    then have s: "s < S" by simp
    show "length (filter (\<lambda>b. b) (dm ! s ! e))
            \<le> (if P1 s then 1 else 0) + (if P2 s then 1 else 0)"
      by (rule filter_true_le) (rule true [OF s])
  qed
  also have "\<dots> = card ?A1 + card ?A2"
    by (simp add: sum.distrib sum_indicator_card)
  also have "card ?A1 = card (f1 ` ?A1)"
  proof (rule card_image [symmetric], rule inj_onI)
    fix x y assume "x \<in> ?A1" "y \<in> ?A1" "f1 x = f1 y"
    then show "x = y" using inj1 [of x y] by (cases "x = y") simp_all
  qed
  also have "card ?A2 = card (f2 ` ?A2)"
  proof (rule card_image [symmetric], rule inj_onI)
    fix x y assume "x \<in> ?A2" "y \<in> ?A2" "f2 x = f2 y"
    then show "x = y" using inj2 [of x y] by (cases "x = y") simp_all
  qed
  also have "card (f1 ` ?A1) + card (f2 ` ?A2) = card (f1 ` ?A1 \<union> f2 ` ?A2)"
  proof (rule card_Un_disjoint [symmetric])
    show "finite (f1 ` ?A1)" "finite (f2 ` ?A2)" using fin by simp_all
    show "f1 ` ?A1 \<inter> f2 ` ?A2 = {}"
    proof (rule ccontr)
      assume "f1 ` ?A1 \<inter> f2 ` ?A2 \<noteq> {}"
      then obtain x where "x \<in> f1 ` ?A1" "x \<in> f2 ` ?A2" by blast
      then obtain s t where "s < S" "P1 s" "x = f1 s" "t < S" "P2 t" "x = f2 t" by blast
      with cross [of s t] show False by simp
    qed
  qed
  also have "\<dots> \<le> card {..<C}"
  proof (rule card_mono)
    show "finite {..<C}" by simp
    show "f1 ` ?A1 \<union> f2 ` ?A2 \<subseteq> {..<C}"
    proof
      fix x assume "x \<in> f1 ` ?A1 \<union> f2 ` ?A2"
      then consider s where "s < S" "P1 s" "x = f1 s" | t where "t < S" "P2 t" "x = f2 t"
        by blast
      then show "x \<in> {..<C}" using r1 r2 by cases simp_all
    qed
  qed
  finally show ?thesis by simp
qed

lemma top1_dense_cases:
  "top1_dense L =
     (if t1_capacity L < 0 then Inl NegativeDimension
      else if list_ex (\<lambda>i. i < 0 \<or> t1_capacity L \<le> i) (top1_locations1_s L)
      then Inl IndexOutOfBounds
      else Inr (Dense (t1_l_aux L) (top1_combine L) (to_bool (top1_combine L))))"
  by (simp add: top1_dense_def one_hot_def Let_def top1_combine_def slot_one_hot_def
      scale_rows_def)

lemma length_masked_row_sum: "length (masked_row_sum g m) = min (length g) (length m)"
  by (simp add: masked_row_sum_def)

lemma scale_rows_shape:
  "length (scale_rows g m) = min (length g) (length m)"
  "s < length g \<Longrightarrow> s < length m \<Longrightarrow> length (scale_rows g m ! s) = length (m ! s)"
  by (simp_all add: scale_rows_def)

lemma scale_rows_nth:
  "s < length g \<Longrightarrow> s < length m \<Longrightarrow> e < length (m ! s) \<Longrightarrow>
   scale_rows g m ! s ! e = g ! s * real_of_int (m ! s ! e)"
  by (simp add: scale_rows_def)

lemma slot_one_hot_shape:
  "length (slot_one_hot idx C) = length idx"
  "s < length idx \<Longrightarrow> length (slot_one_hot idx C ! s) = nat C"
  by (simp_all add: slot_one_hot_def)

lemma slot_one_hot_nth:
  "s < length idx \<Longrightarrow> c < nat C \<Longrightarrow>
   slot_one_hot idx C ! s ! c = (if c = nat (idx ! s) then 1 else 0)"
  by (simp add: slot_one_hot_def slot_row_nth)

lemma top1_shapes:
  assumes "well_shaped a" "top1_front a = Inr L"
  shows "length (t1_gates1_s L) = length (logits a)"
    and "length (top1_locations1_s L) = length (logits a)"
    and "length (top1_admitted L) = length (logits a)"
    and "\<And>s. s < length (logits a) \<Longrightarrow> length (top1_admitted L ! s) = num_experts a"
proof -
  note f = top1_front_fields [OF assms]
  note m1 = selection_mask_pre_mask1 [OF assms(1)]
  note sa = selection_mask_top1_admitted [OF assms]
  show "length (t1_gates1_s L) = length (logits a)"
    unfolding f by (simp add: length_masked_row_sum selection_mask_length [OF m1])
  show "length (top1_locations1_s L) = length (logits a)"
    unfolding top1_locations1_s_def
    by (simp add: length_row_sum_prod f(2) selection_mask_length [OF m1]
        selection_mask_length [OF sa])
  show "length (top1_admitted L) = length (logits a)"
    by (rule selection_mask_length [OF sa])
  show "length (top1_admitted L ! s) = num_experts a" if "s < length (logits a)" for s
    by (rule selection_mask_row [OF sa that])
qed

lemma top1_slot_range:
  assumes "well_shaped a" "top1_front a = Inr L" "s < length (logits a)"
  shows "0 \<le> top1_locations1_s L ! s"
    and "0 < t1_capacity L \<Longrightarrow> top1_locations1_s L ! s < t1_capacity L"
proof -
  note f = top1_front_fields [OF assms(1,2)]
  note m1 = selection_mask_pre_mask1 [OF assms(1)]
  note sa = selection_mask_top1_admitted [OF assms(1,2)]
  have both: "0 \<le> top1_locations1_s L ! s
      \<and> (0 < t1_capacity L \<longrightarrow> top1_locations1_s L ! s < t1_capacity L)"
  proof (cases "\<exists>e<num_experts a. top1_admitted L ! s ! e \<noteq> 0")
    case True
    then obtain e where e: "e < num_experts a" "top1_admitted L ! s ! e \<noteq> 0" by blast
    from top1_admitted_facts(2,3) [OF assms e]
      prefix_sum_nonneg [OF selection_mask_column_nonneg [OF m1 e(1)], of s]
    show ?thesis by simp
  next
    case False
    then have z: "\<And>e. e < num_experts a \<Longrightarrow> top1_admitted L ! s ! e = 0" by blast
    have row: "length (t1_locations1 L ! s) = num_experts a"
      unfolding f using assms(3) m1
      by (simp add: length_fused_cumsum_row selection_mask_length selection_mask_row)
    have "top1_locations1_s L ! s = 0"
      unfolding top1_locations1_s_def
      using assms(3) selection_mask_length [OF sa] selection_mask_length [OF m1]
        zero_row_sum [OF row selection_mask_row [OF sa assms(3)] z]
      by (simp add: row_sum_prod_nth f(2))
    then show ?thesis by simp
  qed
  from both show "0 \<le> top1_locations1_s L ! s" by simp
  from both show "0 < t1_capacity L \<Longrightarrow> top1_locations1_s L ! s < t1_capacity L" by simp
qed

text \<open>
  The dense path of \<open>top1gating\<close> after the front part: a negative capacity fails in
  \<open>torch.zeros\<close>, capacity 0 with a token fails in \<open>scatter_\<close> (index 0 is outside a
  dimension of size 0), and every other call returns the dense tensors.
\<close>

lemma top1_dense_result:
  assumes "well_shaped a" "top1_front a = Inr L"
  shows "top1_dense L =
     (if t1_capacity L < 0 then Inl NegativeDimension
      else if t1_capacity L = 0 \<and> 0 < length (logits a) then Inl IndexOutOfBounds
      else Inr (Dense (t1_l_aux L) (top1_combine L) (to_bool (top1_combine L))))"
proof -
  let ?bad = "list_ex (\<lambda>i. i < 0 \<or> t1_capacity L \<le> i) (top1_locations1_s L)"
  note len = top1_shapes(2) [OF assms]
  have "?bad \<longleftrightarrow> t1_capacity L = 0 \<and> 0 < length (logits a)" if C: "0 \<le> t1_capacity L"
  proof (cases "t1_capacity L = 0")
    case True
    show ?thesis
    proof (cases "0 < length (logits a)")
      case pos: True
      then have "top1_locations1_s L ! 0 \<in> set (top1_locations1_s L)" using len by simp
      moreover have "t1_capacity L \<le> top1_locations1_s L ! 0"
        using top1_slot_range(1) [OF assms pos] True by simp
      ultimately show ?thesis using True pos by (auto simp: list_ex_iff)
    next
      case False
      then have "top1_locations1_s L = []" using len by simp
      then show ?thesis using False by simp
    qed
  next
    case False
    with C have pos: "0 < t1_capacity L" by simp
    have "\<not> (i < 0 \<or> t1_capacity L \<le> i)" if "i \<in> set (top1_locations1_s L)" for i
    proof -
      from that obtain s where s: "s < length (logits a)" "i = top1_locations1_s L ! s"
        using len by (auto simp: in_set_conv_nth)
      from top1_slot_range [OF assms s(1)] pos s(2) show ?thesis by simp
    qed
    then show ?thesis using False by (auto simp: list_ex_iff)
  qed
  then show ?thesis by (auto simp: top1_dense_cases)
qed

lemma top1gating_dense:
  assumes "\<not> has_tutel a" "top1_front a = Inr L"
  shows "top1gating a = top1_dense L"
  using assms by (simp add: top1gating_def)

lemma top1_combine_nth:
  assumes "well_shaped a" "top1_front a = Inr L"
    "s < length (logits a)" "e < num_experts a" "c < nat (t1_capacity L)"
  shows "top1_combine L ! s ! e ! c =
           t1_gates1_s L ! s * real_of_int (top1_admitted L ! s ! e)
             * (if c = nat (top1_locations1_s L ! s) then 1 else 0)"
proof -
  note sh = top1_shapes [OF assms(1,2)]
  have "top1_combine L ! s ! e ! c =
          scale_rows (t1_gates1_s L) (top1_admitted L) ! s ! e
            * real_of_int (slot_one_hot (top1_locations1_s L) (t1_capacity L) ! s ! c)"
    unfolding top1_combine_def using assms(3,4,5) sh
    by (intro bmm_outer_nth) (simp_all add: scale_rows_shape slot_one_hot_shape)
  then show ?thesis
    using assms(3,4,5) sh by (simp add: scale_rows_nth slot_one_hot_nth)
qed

lemma top1_combine_shape:
  assumes "well_shaped a" "top1_front a = Inr L"
  shows "length (top1_combine L) = length (logits a)"
    and "\<And>s. s < length (logits a) \<Longrightarrow> length (top1_combine L ! s) = num_experts a"
    and "\<And>s e. s < length (logits a) \<Longrightarrow> e < num_experts a \<Longrightarrow>
           length (top1_combine L ! s ! e) = nat (t1_capacity L)"
proof -
  note sh = top1_shapes [OF assms(1,2)]
  show "length (top1_combine L) = length (logits a)"
    unfolding top1_combine_def using sh
    by (simp add: bmm_outer_shape scale_rows_shape slot_one_hot_shape)
  show "length (top1_combine L ! s) = num_experts a" if "s < length (logits a)" for s
    unfolding top1_combine_def using sh that
    by (simp add: bmm_outer_shape scale_rows_shape slot_one_hot_shape)
  show "length (top1_combine L ! s ! e) = nat (t1_capacity L)"
    if "s < length (logits a)" "e < num_experts a" for s e
    unfolding top1_combine_def using sh that
    by (simp add: bmm_outer_shape scale_rows_shape slot_one_hot_shape)
qed

lemma example_zero_capacity_shape: "well_shaped example_zero_capacity"
  by (simp add: well_shaped_def example_zero_capacity_def)

lemma ceiling_half: "\<lceil>1 / 2 :: real\<rceil> = 1"
  by (rule ceiling_unique) simp_all

lemma example_zero_capacity_capacity: "top1_capacity example_zero_capacity = Inr 0"
  by (simp add: top1_capacity_cases example_zero_capacity_def py_int_def ceiling_half)

lemma top1_locations1_nonneg:
  assumes "well_shaped a" "top1_front a = Inr L" "s < length (logits a)" "e < num_experts a"
  shows "0 \<le> t1_locations1 L ! s ! e"
proof -
  note m1 = selection_mask_pre_mask1 [OF assms(1)]
  have "t1_locations1 L ! s ! e = sum_list (take s (column (pre_mask1 a) e))"
    unfolding top1_front_fields [OF assms(1,2)] using assms(3,4) m1
    by (simp add: fused_cumsum_nth selection_mask_length selection_mask_row)
  then show ?thesis
    using prefix_sum_nonneg [OF selection_mask_column_nonneg [OF m1 assms(4)], of s] by simp
qed

text \<open>
  Capacity 0 on the dense path of \<open>top1gating\<close>: the mask after the capacity filter is all
  zero, every token's slot index is 0, and \<open>one_hot(locations1_s, num_classes=0)\<close> has no
  index 0 to write to. So the call returns (empty tensors) only for an empty batch.
\<close>

lemma top1_zero_capacity_dense:
  assumes "well_shaped a" "\<not> has_tutel a" "0 < num_experts a" "top1_capacity a = Inr 0"
  shows "\<exists>L. top1_front a = Inr L
          \<and> (\<forall>s<length (logits a). \<forall>e<num_experts a. top1_admitted L ! s ! e = 0)
          \<and> top1gating a =
              (if 0 < length (logits a) then Inl IndexOutOfBounds
               else Inr (Dense (t1_l_aux L) [] []))"
proof -
  from top1_front_total [OF assms(1,3)] obtain L where L: "top1_front a = Inr L" ..
  have C: "t1_capacity L = 0" using top1_front_capacity [OF L] assms(4) by simp
  have adm: "top1_admitted L ! s ! e = 0"
    if "s < length (logits a)" "e < num_experts a" for s e
    using top1_admitted_nth [OF assms(1) L that] top1_locations1_nonneg [OF assms(1) L that] C
    by simp
  have empty: "top1_combine L = []" if "\<not> 0 < length (logits a)"
    using top1_combine_shape(1) [OF assms(1) L] that by simp
  have "top1gating a =
          (if 0 < length (logits a) then Inl IndexOutOfBounds
           else Inr (Dense (t1_l_aux L) [] []))"
    using top1gating_dense [OF assms(2) L] top1_dense_result [OF assms(1) L] C empty
    by (simp add: to_bool_def)
  with L adm show ?thesis by blast
qed

text \<open>
  Claim C3. One token, two experts and \<open>capacity_factor = 0.5\<close> give the capacity
  \<open>int(0.5 * ceil(1 / 2)) = 0\<close>. The mask after the capacity filter is all zero (no token
  is admitted), but the dense path does not return all-zero combine weights: it raises
  in \<open>one_hot(locations1_s, num_classes=0)\<close>, where \<open>scatter_\<close> writes index 0 into a
  dimension of size 0. The accelerated path returns on the same input.
\<close>

theorem top1_zero_capacity_raises:
  "top1_capacity example_zero_capacity = Inr 0
   \<and> (\<exists>L. top1_front example_zero_capacity = Inr L \<and> top1_admitted L = [[0, 0]])
   \<and> top1gating example_zero_capacity = Inl IndexOutOfBounds
   \<and> (\<exists>r. top1gating (example_zero_capacity\<lparr>has_tutel := True\<rparr>) = Inr r)"
  by (simp add: top1gating_def top1_front_def top1_dense_def top1_capacity_def py_int_def
      top1_admitted_def top1_locations1_s_def example_zero_capacity_def eval_defs
      ceiling_half)

lemma top2_dense_cases:
  "top2_dense a L =
     (if t2_capacity L < 0 then Inl NegativeDimension
      else if list_ex (\<lambda>i. i < 0 \<or> t2_capacity L \<le> i) (top2_locations1_s L)
      then Inl IndexOutOfBounds
      else if list_ex (\<lambda>i. i < 0 \<or> t2_capacity L \<le> i) (top2_locations2_s L)
      then Inl IndexOutOfBounds
      else Inr (Dense (t2_l_aux L) (top2_combine a L) (to_bool (top2_combine a L))))"
  by (simp add: top2_dense_def one_hot_def Let_def top2_combine_def slot_one_hot_def
      scale_rows_def add_tensors_def split: prod.splits)

lemma add_tensors_nth:
  assumes "s < length t" "s < length u" "e < length (t ! s)" "e < length (u ! s)"
    "c < length (t ! s ! e)" "c < length (u ! s ! e)"
  shows "add_tensors t u ! s ! e ! c = t ! s ! e ! c + u ! s ! e ! c"
  using assms by (simp add: add_tensors_def)

lemma add_tensors_shape:
  "length (add_tensors t u) = min (length t) (length u)"
  "s < length t \<Longrightarrow> s < length u \<Longrightarrow>
     length (add_tensors t u ! s) = min (length (t ! s)) (length (u ! s))"
  "s < length t \<Longrightarrow> s < length u \<Longrightarrow> e < length (t ! s) \<Longrightarrow> e < length (u ! s) \<Longrightarrow>
     length (add_tensors t u ! s ! e) = min (length (t ! s ! e)) (length (u ! s ! e))"
  by (simp_all add: add_tensors_def)

lemma length_normalize_pair:
  "length (fst (normalize_pair g1 g2)) = min (length g1) (length g2)"
  "length (snd (normalize_pair g1 g2)) = min (length g1) (length g2)"
  by (simp_all add: normalize_pair_def Let_def)

lemma top2_shapes:
  assumes "well_shaped a" "top2_front a = Inr L"
  shows "length (fst (top2_final_gates a L)) = length (logits a)"
    and "length (snd (top2_final_gates a L)) = length (logits a)"
    and "length (top2_locations1_s L) = length (logits a)"
    and "length (top2_locations2_s L) = length (logits a)"
    and "length (top2_admitted1 L) = length (logits a)"
    and "length (top2_admitted2 L) = length (logits a)"
    and "\<And>s. s < length (logits a) \<Longrightarrow> length (top2_admitted1 L ! s) = num_experts a"
    and "\<And>s. s < length (logits a) \<Longrightarrow> length (top2_admitted2 L ! s) = num_experts a"
proof -
  note f = top2_front_fields [OF assms]
  note sa = selection_mask_top2_admitted [OF assms]
  note sh = top2_locations_shape [OF assms]
  have early: "length (fst (early_gates a)) = length (logits a)"
    "length (snd (early_gates a)) = length (logits a)"
    by (simp_all add: early_gates_def Let_def length_normalize_pair length_masked_row_sum
        length_second_choice)
  show "length (fst (top2_final_gates a L)) = length (logits a)"
    using early selection_mask_length [OF sa(1)] selection_mask_length [OF sa(2)]
    by (simp add: top2_final_gates_def length_normalize_pair length_masked_row_sum f)
  show "length (snd (top2_final_gates a L)) = length (logits a)"
    using early selection_mask_length [OF sa(1)] selection_mask_length [OF sa(2)]
    by (simp add: top2_final_gates_def length_normalize_pair length_masked_row_sum f)
  show "length (top2_locations1_s L) = length (logits a)"
    using sh(1) selection_mask_length [OF sa(1)]
    by (simp add: top2_locations1_s_def length_row_sum_prod)
  show "length (top2_locations2_s L) = length (logits a)"
    using sh(2) selection_mask_length [OF sa(2)]
    by (simp add: top2_locations2_s_def length_row_sum_prod)
  show "length (top2_admitted1 L) = length (logits a)"
    by (rule selection_mask_length [OF sa(1)])
  show "length (top2_admitted2 L) = length (logits a)"
    by (rule selection_mask_length [OF sa(2)])
  show "length (top2_admitted1 L ! s) = num_experts a" if "s < length (logits a)" for s
    by (rule selection_mask_row [OF sa(1) that])
  show "length (top2_admitted2 L ! s) = num_experts a" if "s < length (logits a)" for s
    by (rule selection_mask_row [OF sa(2) that])
qed

lemma top2_capacity_positive:
  assumes "top2_capacity a = Inr C" "0 < length (logits a)"
  shows "0 < C"
proof (cases "moe_eval_capacity_token_fraction a > 0 \<and> eval_mode a")
  case True
  then have "0 < moe_eval_capacity_token_fraction a * real (length (logits a))"
    using assms(2) by simp
  then have "0 < \<lceil>moe_eval_capacity_token_fraction a * real (length (logits a))\<rceil>"
    by (simp add: zero_less_ceiling)
  with True assms(1) show ?thesis by (simp add: top2_capacity_cases)
next
  case False
  with assms(1) have E: "num_experts a \<noteq> 0"
    and C: "C = 2 * \<lceil>real (length (logits a)) / real (num_experts a)\<rceil>"
    by (auto simp: top2_capacity_cases split: if_splits)
  have "0 < real (length (logits a)) / real (num_experts a)" using E assms(2) by simp
  then have "0 < \<lceil>real (length (logits a)) / real (num_experts a)\<rceil>"
    by (simp add: zero_less_ceiling)
  with C show ?thesis by simp
qed

lemma top2_capacity_nonneg:
  assumes "top2_capacity a = Inr C"
  shows "0 \<le> C"
proof (cases "0 < length (logits a)")
  case True
  from top2_capacity_positive [OF assms True] show ?thesis by simp
next
  case False
  with assms show ?thesis by (auto simp: top2_capacity_cases split: if_splits)
qed

lemma top2_slot_facts:
  assumes "well_shaped a" "top2_front a = Inr L"
    "s < length (logits a)" "t < length (logits a)" "e < num_experts a"
  shows "top2_admitted1 L ! s ! e \<noteq> 0 \<Longrightarrow> top2_admitted1 L ! t ! e \<noteq> 0 \<Longrightarrow> s \<noteq> t
            \<Longrightarrow> top2_locations1_s L ! s \<noteq> top2_locations1_s L ! t"
    and "top2_admitted2 L ! s ! e \<noteq> 0 \<Longrightarrow> top2_admitted2 L ! t ! e \<noteq> 0 \<Longrightarrow> s \<noteq> t
            \<Longrightarrow> top2_locations2_s L ! s \<noteq> top2_locations2_s L ! t"
    and "top2_admitted1 L ! s ! e \<noteq> 0 \<Longrightarrow> top2_admitted2 L ! t ! e \<noteq> 0
            \<Longrightarrow> top2_locations1_s L ! s < top2_locations2_s L ! t"
    and "top2_admitted1 L ! s ! e \<noteq> 0
            \<Longrightarrow> 0 \<le> top2_locations1_s L ! s \<and> top2_locations1_s L ! s < t2_capacity L"
    and "top2_admitted2 L ! s ! e \<noteq> 0
            \<Longrightarrow> 0 \<le> top2_locations2_s L ! s \<and> top2_locations2_s L ! s < t2_capacity L"
proof -
  note m1 = selection_mask_pre_mask1 [OF assms(1)]
  note m2 = selection_mask_pre_mask2 [OF assms(1)]
  have total: "0 \<le> sum_list (column (pre_mask1 a) e)"
    using selection_mask_column_nonneg [OF m1 assms(5)] by (intro sum_list_nonneg) blast
  show "top2_locations1_s L ! s \<noteq> top2_locations1_s L ! t"
    if "top2_admitted1 L ! s ! e \<noteq> 0" "top2_admitted1 L ! t ! e \<noteq> 0" "s \<noteq> t"
    using top2_admitted1_facts(1,2) [OF assms(1,2,3,5) that(1)]
      top2_admitted1_facts(1,2) [OF assms(1,2,4,5) that(2)]
      rank_locations_inj [OF m1 assms(3,4,5) _ _ that(3)]
    by simp
  show "top2_locations2_s L ! s \<noteq> top2_locations2_s L ! t"
    if "top2_admitted2 L ! s ! e \<noteq> 0" "top2_admitted2 L ! t ! e \<noteq> 0" "s \<noteq> t"
    using top2_admitted2_facts(1,2) [OF assms(1,2,3,5) that(1)]
      top2_admitted2_facts(1,2) [OF assms(1,2,4,5) that(2)]
      rank_locations_inj [OF m2 assms(3,4,5) _ _ that(3)]
    by simp
  show "top2_locations1_s L ! s < top2_locations2_s L ! t"
    if "top2_admitted1 L ! s ! e \<noteq> 0" "top2_admitted2 L ! t ! e \<noteq> 0"
  proof -
    note a = top2_admitted1_facts(1,2) [OF assms(1,2,3,5) that(1)]
    note b = top2_admitted2_facts(1,2) [OF assms(1,2,4,5) that(2)]
    from rank_locations_bounds(2) [OF m1 assms(3,5) a(1)]
      rank_locations_bounds(1) [OF m2 assms(4,5) b(1)] a(2) b(2)
    show ?thesis by simp
  qed
  show "0 \<le> top2_locations1_s L ! s \<and> top2_locations1_s L ! s < t2_capacity L"
    if "top2_admitted1 L ! s ! e \<noteq> 0"
    using top2_admitted1_facts [OF assms(1,2,3,5) that]
      rank_locations_bounds(1) [OF m1 assms(3,5)] by simp
  show "0 \<le> top2_locations2_s L ! s \<and> top2_locations2_s L ! s < t2_capacity L"
    if "top2_admitted2 L ! s ! e \<noteq> 0"
    using top2_admitted2_facts [OF assms(1,2,3,5) that]
      rank_locations_bounds(1) [OF m2 assms(3,5)] total by simp
qed

lemma top2_slot_range:
  assumes "well_shaped a" "top2_front a = Inr L" "s < length (logits a)"
  shows "0 \<le> top2_locations1_s L ! s" "top2_locations1_s L ! s < t2_capacity L"
    and "0 \<le> top2_locations2_s L ! s" "top2_locations2_s L ! s < t2_capacity L"
proof -
  note sa = selection_mask_top2_admitted [OF assms(1,2)]
  note sh = top2_locations_shape [OF assms(1,2)]
  have pos: "0 < t2_capacity L"
  proof -
    have "0 < length (logits a)" using assms(3) by (cases "logits a") simp_all
    then show ?thesis by (rule top2_capacity_positive [OF top2_front_capacity [OF assms(2)]])
  qed
  have one: "0 \<le> top2_locations1_s L ! s \<and> top2_locations1_s L ! s < t2_capacity L"
  proof (cases "\<exists>e<num_experts a. top2_admitted1 L ! s ! e \<noteq> 0")
    case True
    then obtain e where e: "e < num_experts a" "top2_admitted1 L ! s ! e \<noteq> 0" by blast
    from top2_slot_facts(4) [OF assms(1,2,3,3) e(1) e(2)] show ?thesis .
  next
    case False
    then have z: "\<And>e. e < num_experts a \<Longrightarrow> top2_admitted1 L ! s ! e = 0" by blast
    have "top2_locations1_s L ! s = 0"
      unfolding top2_locations1_s_def
      using assms(3) selection_mask_length [OF sa(1)] sh(1)
        zero_row_sum [OF sh(3) [OF assms(3)] selection_mask_row [OF sa(1) assms(3)] z]
      by (simp add: row_sum_prod_nth)
    with pos show ?thesis by simp
  qed
  have two: "0 \<le> top2_locations2_s L ! s \<and> top2_locations2_s L ! s < t2_capacity L"
  proof (cases "\<exists>e<num_experts a. top2_admitted2 L ! s ! e \<noteq> 0")
    case True
    then obtain e where e: "e < num_experts a" "top2_admitted2 L ! s ! e \<noteq> 0" by blast
    from top2_slot_facts(5) [OF assms(1,2,3,3) e(1) e(2)] show ?thesis .
  next
    case False
    then have z: "\<And>e. e < num_experts a \<Longrightarrow> top2_admitted2 L ! s ! e = 0" by blast
    have "top2_locations2_s L ! s = 0"
      unfolding top2_locations2_s_def
      using assms(3) selection_mask_length [OF sa(2)] sh(2)
        zero_row_sum [OF sh(4) [OF assms(3)] selection_mask_row [OF sa(2) assms(3)] z]
      by (simp add: row_sum_prod_nth)
    with pos show ?thesis by simp
  qed
  from one show "0 \<le> top2_locations1_s L ! s" "top2_locations1_s L ! s < t2_capacity L"
    by simp_all
  from two show "0 \<le> top2_locations2_s L ! s" "top2_locations2_s L ! s < t2_capacity L"
    by simp_all
qed

lemma top2_dense_result:
  assumes "well_shaped a" "top2_front a = Inr L"
  shows "top2_dense a L
           = Inr (Dense (t2_l_aux L) (top2_combine a L) (to_bool (top2_combine a L)))"
proof -
  note sh = top2_shapes [OF assms]
  have C: "\<not> t2_capacity L < 0"
    using top2_capacity_nonneg [OF top2_front_capacity [OF assms(2)]] by simp
  have b1: "\<not> list_ex (\<lambda>i. i < 0 \<or> t2_capacity L \<le> i) (top2_locations1_s L)"
  proof
    assume "list_ex (\<lambda>i. i < 0 \<or> t2_capacity L \<le> i) (top2_locations1_s L)"
    then obtain s where s: "s < length (top2_locations1_s L)"
      and bad: "top2_locations1_s L ! s < 0 \<or> t2_capacity L \<le> top2_locations1_s L ! s"
      by (auto simp: list_ex_iff in_set_conv_nth)
    from s sh(3) have "s < length (logits a)" by simp
    from top2_slot_range(1,2) [OF assms this] bad show False by simp
  qed
  have b2: "\<not> list_ex (\<lambda>i. i < 0 \<or> t2_capacity L \<le> i) (top2_locations2_s L)"
  proof
    assume "list_ex (\<lambda>i. i < 0 \<or> t2_capacity L \<le> i) (top2_locations2_s L)"
    then obtain s where s: "s < length (top2_locations2_s L)"
      and bad: "top2_locations2_s L ! s < 0 \<or> t2_capacity L \<le> top2_locations2_s L ! s"
      by (auto simp: list_ex_iff in_set_conv_nth)
    from s sh(4) have "s < length (logits a)" by simp
    from top2_slot_range(3,4) [OF assms this] bad show False by simp
  qed
  from C b1 b2 show ?thesis by (simp only: top2_dense_cases if_False)
qed

lemma top2gating_dense:
  assumes "\<not> has_tutel a" "top2_front a = Inr L"
  shows "top2gating a = top2_dense a L"
  using assms by (simp add: top2gating_def)

lemma top2gating_returns:
  assumes "well_shaped a" "0 < num_experts a" "\<not> has_tutel a"
  shows "\<exists>L. top2_front a = Inr L
           \<and> top2gating a
               = Inr (Dense (t2_l_aux L) (top2_combine a L) (to_bool (top2_combine a L)))"
proof -
  from top2_front_total [OF assms(1,2)] obtain L where L: "top2_front a = Inr L" ..
  from top2gating_dense [OF assms(3) L] top2_dense_result [OF assms(1) L] L
  show ?thesis by simp
qed

lemma top2_combine_shape:
  assumes "well_shaped a" "top2_front a = Inr L"
  shows "length (top2_combine a L) = length (logits a)"
    and "\<And>s. s < length (logits a) \<Longrightarrow> length (top2_combine a L ! s) = num_experts a"
    and "\<And>s e. s < length (logits a) \<Longrightarrow> e < num_experts a \<Longrightarrow>
           length (top2_combine a L ! s ! e) = nat (t2_capacity L)"
proof -
  note sh = top2_shapes [OF assms(1,2)]
  show "length (top2_combine a L) = length (logits a)"
    unfolding top2_combine_def using sh
    by (simp add: add_tensors_shape bmm_outer_shape scale_rows_shape slot_one_hot_shape)
  show "length (top2_combine a L ! s) = num_experts a" if "s < length (logits a)" for s
    unfolding top2_combine_def using sh that
    by (simp add: add_tensors_shape bmm_outer_shape scale_rows_shape slot_one_hot_shape)
  show "length (top2_combine a L ! s ! e) = nat (t2_capacity L)"
    if "s < length (logits a)" "e < num_experts a" for s e
    unfolding top2_combine_def using sh that
    by (simp add: add_tensors_shape bmm_outer_shape scale_rows_shape slot_one_hot_shape)
qed

lemma top2_combine_nth:
  assumes "well_shaped a" "top2_front a = Inr L"
    "s < length (logits a)" "e < num_experts a" "c < nat (t2_capacity L)"
  shows "top2_combine a L ! s ! e ! c =
           fst (top2_final_gates a L) ! s * real_of_int (top2_admitted1 L ! s ! e)
             * (if c = nat (top2_locations1_s L ! s) then 1 else 0)
         + snd (top2_final_gates a L) ! s * real_of_int (top2_admitted2 L ! s ! e)
             * (if c = nat (top2_locations2_s L ! s) then 1 else 0)"
proof -
  note sh = top2_shapes [OF assms(1,2)]
  let ?t = "bmm_outer (scale_rows (fst (top2_final_gates a L)) (top2_admitted1 L))
              (slot_one_hot (top2_locations1_s L) (t2_capacity L))"
  let ?u = "bmm_outer (scale_rows (snd (top2_final_gates a L)) (top2_admitted2 L))
              (slot_one_hot (top2_locations2_s L) (t2_capacity L))"
  have t: "?t ! s ! e ! c =
          scale_rows (fst (top2_final_gates a L)) (top2_admitted1 L) ! s ! e
            * real_of_int (slot_one_hot (top2_locations1_s L) (t2_capacity L) ! s ! c)"
    using assms(3,4,5) sh
    by (intro bmm_outer_nth) (simp_all add: scale_rows_shape slot_one_hot_shape)
  have u: "?u ! s ! e ! c =
          scale_rows (snd (top2_final_gates a L)) (top2_admitted2 L) ! s ! e
            * real_of_int (slot_one_hot (top2_locations2_s L) (t2_capacity L) ! s ! c)"
    using assms(3,4,5) sh
    by (intro bmm_outer_nth) (simp_all add: scale_rows_shape slot_one_hot_shape)
  have "top2_combine a L ! s ! e ! c = ?t ! s ! e ! c + ?u ! s ! e ! c"
    unfolding top2_combine_def using assms(3,4,5) sh
    by (intro add_tensors_nth)
       (simp_all add: bmm_outer_shape scale_rows_shape slot_one_hot_shape)
  then show ?thesis
    using assms(3,4,5) sh t u by (simp add: scale_rows_nth slot_one_hot_nth)
qed

lemma top1_slot_inj:
  assumes "well_shaped a" "top1_front a = Inr L"
    "s < length (logits a)" "t < length (logits a)" "e < num_experts a"
    "top1_admitted L ! s ! e \<noteq> 0" "top1_admitted L ! t ! e \<noteq> 0" "s \<noteq> t"
  shows "top1_locations1_s L ! s \<noteq> top1_locations1_s L ! t"
proof -
  note m1 = selection_mask_pre_mask1 [OF assms(1)]
  note nn = selection_mask_column_nonneg [OF m1 assms(5)]
  note fs = top1_admitted_facts(1,2) [OF assms(1,2,3,5,6)]
  note ft = top1_admitted_facts(1,2) [OF assms(1,2,4,5,7)]
  have lm: "length (pre_mask1 a) = length (logits a)" by (rule selection_mask_length [OF m1])
  have lc: "length (column (pre_mask1 a) e) = length (logits a)"
    using lm by (simp add: length_column)
  have lt: "sum_list (take i (column (pre_mask1 a) e)) + 1
              \<le> sum_list (take j (column (pre_mask1 a) e))"
    if "i < j" "j < length (logits a)" "pre_mask1 a ! i ! e = 1" for i j
  proof -
    have i: "i < length (logits a)" using that(1,2) by simp
    have "1 \<le> column (pre_mask1 a) e ! i" using i lm that(3) by (simp add: column_nth)
    moreover have "j \<le> length (column (pre_mask1 a) e)" using that(2) lc by simp
    ultimately show ?thesis using that(1) by (intro prefix_sum_strict [OF nn])
  qed
  from assms(8) consider "s < t" | "t < s" by linarith
  then show ?thesis
  proof cases
    case 1
    from lt [OF 1 assms(4) fs(1)] fs(2) ft(2) show ?thesis by simp
  next
    case 2
    from lt [OF 2 assms(3) ft(1)] fs(2) ft(2) show ?thesis by simp
  qed
qed

lemma top1_dispatch_bound:
  assumes "well_shaped a" "top1_front a = Inr L" "e < num_experts a"
  shows "dispatched_to (to_bool (top1_combine L)) e \<le> nat (t1_capacity L)"
proof (rule dispatched_to_bound
    [where S = "length (logits a)"
       and ?P1.0 = "\<lambda>s. top1_admitted L ! s ! e \<noteq> 0"
       and ?f1.0 = "\<lambda>s. nat (top1_locations1_s L ! s)"
       and ?P2.0 = "\<lambda>s. False" and ?f2.0 = "\<lambda>s. 0"])
  note sh = top1_combine_shape [OF assms(1,2)]
  show "length (to_bool (top1_combine L)) = length (logits a)"
    using sh(1) by (simp add: to_bool_shape)
  show "(top1_admitted L ! s ! e \<noteq> 0 \<and> c = nat (top1_locations1_s L ! s)) \<or> (False \<and> c = 0)"
    if "s < length (logits a)" "c < length (to_bool (top1_combine L) ! s ! e)"
      "to_bool (top1_combine L) ! s ! e ! c" for s c
  proof -
    have c: "c < nat (t1_capacity L)"
      using that(1,2) assms(3) sh by (simp add: to_bool_shape)
    have "top1_combine L ! s ! e ! c \<noteq> 0"
      using that(1,3) assms(3) sh c by (simp add: to_bool_nth)
    then show ?thesis
      using top1_combine_nth [OF assms(1,2) that(1) assms(3) c]
      by (auto split: if_splits)
  qed
  show "nat (top1_locations1_s L ! s) \<noteq> nat (top1_locations1_s L ! t)"
    if "s < length (logits a)" "t < length (logits a)"
      "top1_admitted L ! s ! e \<noteq> 0" "top1_admitted L ! t ! e \<noteq> 0" "s \<noteq> t" for s t
    using top1_slot_inj [OF assms(1,2) that(1,2) assms(3) that(3,4,5)]
      top1_slot_range(1) [OF assms(1,2) that(1)] top1_slot_range(1) [OF assms(1,2) that(2)]
    by simp
  show "nat (top1_locations1_s L ! s) < nat (t1_capacity L)"
    if "s < length (logits a)" "top1_admitted L ! s ! e \<noteq> 0" for s
    using top1_admitted_facts(3) [OF assms(1,2) that(1) assms(3) that(2)]
      top1_slot_range(1) [OF assms(1,2) that(1)]
    by simp
qed simp_all

lemma top2_dispatch_bound:
  assumes "well_shaped a" "top2_front a = Inr L" "e < num_experts a"
  shows "dispatched_to (to_bool (top2_combine a L)) e \<le> nat (t2_capacity L)"
proof (rule dispatched_to_bound
    [where S = "length (logits a)"
       and ?P1.0 = "\<lambda>s. top2_admitted1 L ! s ! e \<noteq> 0"
       and ?f1.0 = "\<lambda>s. nat (top2_locations1_s L ! s)"
       and ?P2.0 = "\<lambda>s. top2_admitted2 L ! s ! e \<noteq> 0"
       and ?f2.0 = "\<lambda>s. nat (top2_locations2_s L ! s)"])
  note sh = top2_combine_shape [OF assms(1,2)]
  show "length (to_bool (top2_combine a L)) = length (logits a)"
    using sh(1) by (simp add: to_bool_shape)
  show "(top2_admitted1 L ! s ! e \<noteq> 0 \<and> c = nat (top2_locations1_s L ! s))
      \<or> (top2_admitted2 L ! s ! e \<noteq> 0 \<and> c = nat (top2_locations2_s L ! s))"
    if "s < length (logits a)" "c < length (to_bool (top2_combine a L) ! s ! e)"
      "to_bool (top2_combine a L) ! s ! e ! c" for s c
  proof -
    have c: "c < nat (t2_capacity L)"
      using that(1,2) assms(3) sh by (simp add: to_bool_shape)
    have "top2_combine a L ! s ! e ! c \<noteq> 0"
      using that(1,3) assms(3) sh c by (simp add: to_bool_nth)
    then show ?thesis
      using top2_combine_nth [OF assms(1,2) that(1) assms(3) c]
      by (auto split: if_splits)
  qed
  show "nat (top2_locations1_s L ! s) \<noteq> nat (top2_locations1_s L ! t)"
    if "s < length (logits a)" "t < length (logits a)"
      "top2_admitted1 L ! s ! e \<noteq> 0" "top2_admitted1 L ! t ! e \<noteq> 0" "s \<noteq> t" for s t
    using top2_slot_facts(1) [OF assms(1,2) that(1,2) assms(3) that(3,4,5)]
      top2_slot_range(1) [OF assms(1,2) that(1)] top2_slot_range(1) [OF assms(1,2) that(2)]
    by simp
  show "nat (top2_locations2_s L ! s) \<noteq> nat (top2_locations2_s L ! t)"
    if "s < length (logits a)" "t < length (logits a)"
      "top2_admitted2 L ! s ! e \<noteq> 0" "top2_admitted2 L ! t ! e \<noteq> 0" "s \<noteq> t" for s t
    using top2_slot_facts(2) [OF assms(1,2) that(1,2) assms(3) that(3,4,5)]
      top2_slot_range(3) [OF assms(1,2) that(1)] top2_slot_range(3) [OF assms(1,2) that(2)]
    by simp
  show "nat (top2_locations1_s L ! s) \<noteq> nat (top2_locations2_s L ! t)"
    if "s < length (logits a)" "t < length (logits a)"
      "top2_admitted1 L ! s ! e \<noteq> 0" "top2_admitted2 L ! t ! e \<noteq> 0" for s t
    using top2_slot_facts(3) [OF assms(1,2) that(1,2) assms(3) that(3,4)]
      top2_slot_range(1) [OF assms(1,2) that(1)] top2_slot_range(3) [OF assms(1,2) that(2)]
    by simp
  show "nat (top2_locations1_s L ! s) < nat (t2_capacity L)"
    if "s < length (logits a)" "top2_admitted1 L ! s ! e \<noteq> 0" for s
    using top2_slot_range(1,2) [OF assms(1,2) that(1)] by simp
  show "nat (top2_locations2_s L ! s) < nat (t2_capacity L)"
    if "s < length (logits a)" "top2_admitted2 L ! s ! e \<noteq> 0" for s
    using top2_slot_range(3,4) [OF assms(1,2) that(1)] by simp
qed

lemma example_capacities:
  "top1_capacity example_three_tokens = Inr 1" "top2_capacity example_two_tokens = Inr 1"
  by (simp_all add: top1_capacity_cases top2_capacity_cases example_three_tokens_def
      example_two_tokens_def py_int_def)

lemma top1gating_returns:
  assumes "well_shaped a" "0 < num_experts a" "\<not> has_tutel a"
    "top1_capacity a = Inr C" "0 < C"
  shows "\<exists>L. top1_front a = Inr L
           \<and> top1gating a
               = Inr (Dense (t1_l_aux L) (top1_combine L) (to_bool (top1_combine L)))"
proof -
  from top1_front_total [OF assms(1,2)] obtain L where L: "top1_front a = Inr L" ..
  from top1_front_capacity [OF L] assms(4,5) have "0 < t1_capacity L" by simp
  with top1gating_dense [OF assms(3) L] top1_dense_result [OF assms(1) L] L
  show ?thesis by simp
qed

text \<open>
  Claim C1. On the dense path (the call returns \<open>Dense l combine_weights dispatch_mask\<close>),
  for \<open>top1gating\<close> and for \<open>top2gating\<close>: the number of true entries of the dispatch mask
  in the slice of one expert (over all tokens and all slots) is at most the capacity that
  the call computed.
\<close>

theorem capacity_invariant:
  assumes "well_shaped a" "top1gating a = Inr (Dense l1 cw1 dm1)" "e < num_experts a"
    and "well_shaped b" "top2gating b = Inr (Dense l2 cw2 dm2)" "d < num_experts b"
  shows "(\<exists>C. top1_capacity a = Inr C \<and> int (dispatched_to dm1 e) \<le> C)
       \<and> (\<exists>C. top2_capacity b = Inr C \<and> int (dispatched_to dm2 d) \<le> C)"
proof
  from assms(2) obtain L where L: "top1_front a = Inr L"
    by (cases "top1_front a") (simp_all add: top1gating_def)
  from assms(2) L have nt: "\<not> has_tutel a"
    by (auto simp: top1gating_def split: if_splits)
  from assms(2) top1gating_dense [OF nt L] top1_dense_result [OF assms(1) L]
  have C: "0 \<le> t1_capacity L" and dm: "dm1 = to_bool (top1_combine L)"
    by (auto split: if_splits)
  from top1_dispatch_bound [OF assms(1) L assms(3)] C dm
  have "int (dispatched_to dm1 e) \<le> t1_capacity L" by simp
  with top1_front_capacity [OF L]
  show "\<exists>C. top1_capacity a = Inr C \<and> int (dispatched_to dm1 e) \<le> C" by blast
next
  from assms(5) obtain L where L: "top2_front b = Inr L"
    by (cases "top2_front b") (simp_all add: top2gating_def)
  from assms(5) L have nt: "\<not> has_tutel b"
    by (auto simp: top2gating_def split: if_splits prod.splits)
  from assms(5) top2gating_dense [OF nt L] top2_dense_result [OF assms(4) L]
  have dm: "dm2 = to_bool (top2_combine b L)" by auto
  have C: "0 \<le> t2_capacity L"
    by (rule top2_capacity_nonneg [OF top2_front_capacity [OF L]])
  from top2_dispatch_bound [OF assms(4) L assms(6)] C dm
  have "int (dispatched_to dm2 d) \<le> t2_capacity L" by simp
  with top2_front_capacity [OF L]
  show "\<exists>C. top2_capacity b = Inr C \<and> int (dispatched_to dm2 d) \<le> C" by blast
qed

theorem capacity_invariant_witness:
  "\<exists>l1 cw1 dm1 l2 cw2 dm2.
      top1gating example_three_tokens = Inr (Dense l1 cw1 dm1)
    \<and> top2gating example_two_tokens = Inr (Dense l2 cw2 dm2)
    \<and> int (dispatched_to dm1 0) \<le> 1 \<and> int (dispatched_to dm2 0) \<le> 1"
proof -
  have "\<exists>L. top1_front example_three_tokens = Inr L
           \<and> top1gating example_three_tokens
               = Inr (Dense (t1_l_aux L) (top1_combine L) (to_bool (top1_combine L)))"
    by (rule top1gating_returns [OF example_three_tokens_shape _ _ example_capacities(1)])
       (simp_all add: example_three_tokens_def)
  then obtain l1 cw1 dm1 where r1: "top1gating example_three_tokens = Inr (Dense l1 cw1 dm1)"
    by blast
  have "\<exists>L. top2_front example_two_tokens = Inr L
           \<and> top2gating example_two_tokens
               = Inr (Dense (t2_l_aux L) (top2_combine example_two_tokens L)
                       (to_bool (top2_combine example_two_tokens L)))"
    by (rule top2gating_returns [OF example_two_tokens_shape])
       (simp_all add: example_two_tokens_def)
  then obtain l2 cw2 dm2 where r2: "top2gating example_two_tokens = Inr (Dense l2 cw2 dm2)"
    by blast
  have e: "0 < num_experts example_three_tokens" "0 < num_experts example_two_tokens"
    by (simp_all add: example_three_tokens_def example_two_tokens_def)
  from capacity_invariant [OF example_three_tokens_shape r1 e(1) example_two_tokens_shape r2 e(2)]
    example_capacities r1 r2
  show ?thesis by auto
qed

lemma top2_front_noise_free:
  assumes "second_expert_policy a \<noteq> ''sampling''" "second_expert_policy a \<noteq> ''random''"
  shows "top2_front (a\<lparr>gumbel_noise := n, rand_draw := r\<rparr>) = top2_front a"
  using assms
  by (simp add: top2_front_def top2_capacity_def Let_def cong: sum.case_cong if_cong)

lemma top2_final_gates_noise_free:
  "top2_final_gates (a\<lparr>gumbel_noise := n, rand_draw := r\<rparr>) L = top2_final_gates a L"
  by (simp add: top2_final_gates_def)

lemma top2_dense_noise_free:
  "top2_dense (a\<lparr>gumbel_noise := n, rand_draw := r\<rparr>) L = top2_dense a L"
  by (simp add: top2_dense_def top2_final_gates_noise_free)

text \<open>
  Claim C9. \<open>top1gating\<close> reads no random draw: it is a function of the logits, the mask
  and the configuration. \<open>top2gating\<close> reads the Gumbel noise only under the policy
  \<open>sampling\<close> and the uniform draws only under the policy \<open>random\<close>: with any other policy
  two runs on the same logits, mask and configuration return the same result (loss,
  combine weights, dispatch mask), whatever the random generator produces in each run.
\<close>

theorem routing_deterministic:
  assumes "second_expert_policy a \<noteq> ''sampling''" "second_expert_policy a \<noteq> ''random''"
  shows "top2gating (a\<lparr>gumbel_noise := n1, rand_draw := r1\<rparr>)
           = top2gating (a\<lparr>gumbel_noise := n2, rand_draw := r2\<rparr>)"
proof -
  have "top2gating (a\<lparr>gumbel_noise := n, rand_draw := r\<rparr>) = top2gating a" for n r
    by (cases "top2_front a")
       (simp_all add: top2gating_def top2_front_noise_free [OF assms]
          top2_final_gates_noise_free top2_dense_noise_free)
  then show ?thesis by simp
qed

theorem routing_deterministic_witness:
  "top2gating (example_two_tokens\<lparr>gumbel_noise := example_noise, rand_draw := example_draw\<rparr>)
     = top2gating (example_two_tokens\<lparr>gumbel_noise := (\<lambda>s e. 0), rand_draw := (\<lambda>s. 0)\<rparr>)
   \<and> second_expert_policy example_two_tokens = ''all''"
  using routing_deterministic [where a = example_two_tokens and ?n1.0 = example_noise
      and ?r1.0 = example_draw and ?n2.0 = "\<lambda>s e. 0" and ?r2.0 = "\<lambda>s. 0"]
  by (simp add: example_two_tokens_def)

lemma sampling_reads_noise:
  "(\<exists>L. top2_front example_sampling = Inr L \<and> t2_indices2_s L = [1])
   \<and> (\<exists>L. top2_front (example_sampling\<lparr>gumbel_noise := example_noise\<rparr>) = Inr L
          \<and> t2_indices2_s L = [2])"
  by (simp add: top2_front_def top2_capacity_def example_sampling_def example_noise_def
      add_noise_def eval_defs)

lemma masked_row_sum_nth:
  "s < length g \<Longrightarrow> s < length m \<Longrightarrow>
   masked_row_sum g m ! s = sum_list (map2 (\<lambda>x y. x * real_of_int y) (g ! s) (m ! s))"
  by (simp add: masked_row_sum_def)

lemma real_sum_list_map2_nth:
  assumes "length l = n" "length r = n"
  shows "sum_list (map2 (\<lambda>x y. x * real_of_int y) l r) = (\<Sum>i<n. l ! i * real_of_int (r ! i))"
proof -
  have "sum_list (map2 (\<lambda>x y. x * real_of_int y) l r)
          = (\<Sum>i = 0..<n. map2 (\<lambda>x y. x * real_of_int y) l r ! i)"
    using assms by (simp add: sum_list_sum_nth)
  also have "\<dots> = (\<Sum>i = 0..<n. l ! i * real_of_int (r ! i))"
    using assms by (intro sum.cong) simp_all
  finally show ?thesis by (simp add: atLeast0LessThan)
qed

lemma real_zero_row_sum:
  assumes "length l = E" "length r = E" "\<And>e. e < E \<Longrightarrow> r ! e = 0"
  shows "sum_list (map2 (\<lambda>x y. x * real_of_int y) l r) = 0"
proof -
  have "sum_list (map2 (\<lambda>x y. x * real_of_int y) l r) = (\<Sum>i<E. l ! i * real_of_int (r ! i))"
    by (rule real_sum_list_map2_nth [OF assms(1,2)])
  also have "\<dots> = (\<Sum>i<E. 0)" using assms(3) by (intro sum.cong) simp_all
  finally show ?thesis by simp
qed

lemma real_selected_row_sum:
  assumes sm: "selection_mask S E m" and s: "s < S" and e: "e < E"
    and one: "m ! s ! e = 1" and len: "length l = E"
  shows "sum_list (map2 (\<lambda>x y. x * real_of_int y) l (m ! s)) = l ! e"
proof -
  have row: "length (m ! s) = E" by (rule selection_mask_row [OF sm s])
  have other: "m ! s ! i = 0" if "i < E" "i \<noteq> e" for i
    using selection_mask_binary [OF sm s that(1)]
      selection_mask_unique [OF sm s that(1) e] one that(2) by blast
  have "sum_list (map2 (\<lambda>x y. x * real_of_int y) l (m ! s))
          = (\<Sum>i<E. l ! i * real_of_int (m ! s ! i))"
    by (rule real_sum_list_map2_nth [OF len row])
  also have "\<dots> = (\<Sum>i<E. if i = e then l ! e else 0)"
    using one other by (intro sum.cong) auto
  also have "\<dots> = l ! e" using e by simp
  finally show ?thesis .
qed

lemma normalize_pair_nth:
  assumes "s < length g1" "s < length g2"
  shows "fst (normalize_pair g1 g2) ! s = g1 ! s / max (g1 ! s + g2 ! s) finfo_eps"
    and "snd (normalize_pair g1 g2) ! s = g2 ! s / max (g1 ! s + g2 ! s) finfo_eps"
  using assms by (simp_all add: normalize_pair_def Let_def)

lemma finfo_eps_small: "finfo_eps < 1 / 10" "0 < finfo_eps"
  by (simp_all add: finfo_eps_def)

lemma selection_mask_other_zero:
  assumes "selection_mask S E m" "s < S" "e < E" "e' < E" "m ! s ! e = 1" "e' \<noteq> e"
  shows "m ! s ! e' = 0"
  using selection_mask_binary [OF assms(1,2,4)]
    selection_mask_unique [OF assms(1,2,4,3)] assms(5,6) by blast

lemma top2_dropped_second_row:
  assumes "well_shaped a" "top2_front a = Inr L" "s < length (logits a)"
    "i2 < num_experts a" "t2_mask2_raw L ! s ! i2 = 1" "top2_admitted2 L ! s ! i2 = 0"
    "e < num_experts a"
  shows "top2_admitted2 L ! s ! e = 0"
proof (cases "e = i2")
  case True
  with assms(6) show ?thesis by simp
next
  case False
  note f = top2_front_fields [OF assms(1,2)]
  have "second_choice a ! s ! e = 0"
    using selection_mask_other_zero [OF selection_mask_second_choice assms(3,4,7) _ False]
      assms(5) f(2) by simp
  moreover from pre_mask2_nth [OF assms(1,3,7)]
  obtain k where "pre_mask2 a ! s ! e = second_choice a ! s ! e * k" ..
  ultimately have "pre_mask2 a ! s ! e = 0" by simp
  with top2_admitted_nth(2) [OF assms(1,2,3,7)] show ?thesis by simp
qed

lemma top2_admitted1_first_choice:
  assumes "well_shaped a" "top2_front a = Inr L" "s < length (logits a)"
    "i1 < num_experts a" "top2_admitted1 L ! s ! i1 = 1"
  shows "t2_mask1_raw L ! s ! i1 = 1"
proof -
  note f = top2_front_fields [OF assms(1,2)]
  have "top2_admitted1 L ! s ! i1 \<noteq> 0" using assms(5) by simp
  from top2_admitted1_facts(1) [OF assms(1,2,3,4) this]
  have "pre_mask1 a ! s ! i1 = 1" .
  with pre_mask1_nth [OF assms(1,3,4)] show ?thesis
    unfolding f by (simp split: if_splits)
qed

text \<open>
  Claim C4. A token \<open>s\<close> whose gate probability is 0.6 for its first choice \<open>i1\<close> and 0.3
  for its second choice \<open>i2\<close>, whose first choice is admitted and whose second choice is
  not: with \<open>normalize_gate_prob_before_dropping\<close> the weight of the first choice in
  the combine weights, at the token's slot, is \<open>0.6 / 0.9 = 2/3\<close> (0.667 to three
  places); without it the weight is \<open>0.6 / 0.6 = 1\<close>. In both cases every weight of the
  token for the second choice is 0. So the two orders differ on this token.
\<close>

theorem normalization_order:
  assumes "well_shaped a" "top2_front a = Inr L" "s < length (logits a)"
    "i1 < num_experts a" "i2 < num_experts a"
    "t2_gates L ! s ! i1 = 6 / 10" "t2_gates L ! s ! i2 = 3 / 10"
    "t2_mask2_raw L ! s ! i2 = 1"
    "top2_admitted1 L ! s ! i1 = 1" "top2_admitted2 L ! s ! i2 = 0"
  shows "top2_combine a L ! s ! i1 ! nat (top2_locations1_s L ! s)
           = (if normalize_gate_prob_before_dropping a then 2 / 3 else 1)
       \<and> (\<forall>c < nat (t2_capacity L). top2_combine a L ! s ! i2 ! c = 0)"
proof -
  note f = top2_front_fields [OF assms(1,2)]
  note sa = selection_mask_top2_admitted [OF assms(1,2)]
  note sh = top2_shapes [OF assms(1,2)]
  let ?g = "softmax (logits a)"
  have lg: "length ?g = length (logits a)" by simp
  have row: "length (?g ! s) = num_experts a" by (rule softmax_rows [OF assms(1,3)])
  have ne: "i2 \<noteq> i1" using assms(6,7) by auto
  have a2: "top2_admitted2 L ! s ! e = 0" if "e < num_experts a" for e
    by (rule top2_dropped_second_row [OF assms(1,2,3,5,8,10) that])
  have a12: "top2_admitted1 L ! s ! i2 = 0"
    by (rule selection_mask_other_zero [OF sa(1) assms(3,4,5,9) ne])
  have m1: "first_choice ?g (num_experts a) ! s ! i1 = 1"
    using top2_admitted1_first_choice [OF assms(1,2,3,4,9)] f(1) by simp
  have m2: "second_choice a ! s ! i2 = 1" using assms(8) f(2) by simp
  have g1: "?g ! s ! i1 = 6 / 10" and g2: "?g ! s ! i2 = 3 / 10"
    using assms(6,7) f(7) by simp_all
  have fc: "selection_mask (length (logits a)) (num_experts a) (first_choice ?g (num_experts a))"
    using selection_mask_first_choice [of ?g "num_experts a"] by simp
  have raw1: "masked_row_sum ?g (first_choice ?g (num_experts a)) ! s = 6 / 10"
    using assms(3) selection_mask_length [OF fc]
      real_selected_row_sum [OF fc assms(3,4) m1 row] g1
    by (simp add: masked_row_sum_nth)
  have raw2: "masked_row_sum ?g (second_choice a) ! s = 3 / 10"
    using assms(3) length_second_choice [of a]
      real_selected_row_sum [OF selection_mask_second_choice assms(3,5) m2 row] g2
    by (simp add: masked_row_sum_nth)
  have adm1: "masked_row_sum ?g (top2_admitted1 L) ! s = 6 / 10"
    using assms(3) sh(5) real_selected_row_sum [OF sa(1) assms(3,4,9) row] g1
    by (simp add: masked_row_sum_nth)
  have adm2: "masked_row_sum ?g (top2_admitted2 L) ! s = 0"
    using assms(3) sh(6) real_zero_row_sum [OF row sh(8) [OF assms(3)] a2]
    by (simp add: masked_row_sum_nth)
  have w1: "fst (top2_final_gates a L) ! s
              = (if normalize_gate_prob_before_dropping a then 2 / 3 else 1)"
  proof (cases "normalize_gate_prob_before_dropping a")
    case True
    have "fst (normalize_pair (masked_row_sum ?g (first_choice ?g (num_experts a)))
                 (masked_row_sum ?g (second_choice a))) ! s
            = masked_row_sum ?g (first_choice ?g (num_experts a)) ! s
                / max (masked_row_sum ?g (first_choice ?g (num_experts a)) ! s
                        + masked_row_sum ?g (second_choice a) ! s) finfo_eps"
      using assms(3) selection_mask_length [OF fc] length_second_choice [of a]
      by (intro normalize_pair_nth) (simp_all add: length_masked_row_sum)
    also have "\<dots> = (6 / 10) / max (6 / 10 + 3 / 10) finfo_eps"
      by (simp only: raw1 raw2)
    also have "\<dots> = 2 / 3" using finfo_eps_small by (simp add: max_def)
    finally show ?thesis
      using True by (simp add: top2_final_gates_def f(8) early_gates_def Let_def)
  next
    case False
    have "fst (normalize_pair (masked_row_sum ?g (top2_admitted1 L))
                 (masked_row_sum ?g (top2_admitted2 L))) ! s
            = masked_row_sum ?g (top2_admitted1 L) ! s
                / max (masked_row_sum ?g (top2_admitted1 L) ! s
                        + masked_row_sum ?g (top2_admitted2 L) ! s) finfo_eps"
      using assms(3) sh(5,6)
      by (intro normalize_pair_nth) (simp_all add: length_masked_row_sum)
    also have "\<dots> = (6 / 10) / max (6 / 10 + 0) finfo_eps"
      by (simp only: adm1 adm2)
    also have "\<dots> = 1" using finfo_eps_small by (simp add: max_def)
    finally show ?thesis
      using False by (simp add: top2_final_gates_def f(7))
  qed
  have slot: "nat (top2_locations1_s L ! s) < nat (t2_capacity L)"
    using top2_slot_range(1,2) [OF assms(1,2,3)] by simp
  have first: "top2_combine a L ! s ! i1 ! nat (top2_locations1_s L ! s)
                 = (if normalize_gate_prob_before_dropping a then 2 / 3 else 1)"
    using top2_combine_nth [OF assms(1,2,3,4) slot] assms(9) a2 [OF assms(4)] w1 by simp
  have second: "top2_combine a L ! s ! i2 ! c = 0" if "c < nat (t2_capacity L)" for c
    using top2_combine_nth [OF assms(1,2,3,5) that] a12 assms(10) by simp
  from first second show ?thesis by simp
qed

lemma example_two_tokens_locals:
  "top2_front example_two_tokens =
     Inr \<lparr>t2_capacity = 1,
          t2_gates = [[6 / 10, 3 / 10, 1 / 10], [1 / 4, 1 / 2, 1 / 4]],
          t2_indices1_s = [0, 1], t2_indices2_s = [1, 0],
          t2_mask1_raw = [[1, 0, 0], [0, 1, 0]], t2_mask2_raw = [[0, 1, 0], [1, 0, 0]],
          t2_mask1 = [[1, 0, 0], [0, 1, 0]], t2_mask2 = [[0, 1, 0], [1, 0, 0]],
          t2_gates1_s = [2 / 3, 2 / 3], t2_gates2_s = [1 / 3, 1 / 3],
          t2_locations1 = [[0, 0, 0], [1, 0, 0]], t2_locations2 = [[1, 1, 0], [1, 2, 0]],
          t2_l_aux = 99 / 80\<rparr>"
  by (simp add: top2_front_def top2_capacity_def example_two_tokens_def eval_defs finfo_eps_def)

lemma example_two_tokens_after_locals:
  "top2_front example_two_tokens_after =
     Inr \<lparr>t2_capacity = 1,
          t2_gates = [[6 / 10, 3 / 10, 1 / 10], [1 / 4, 1 / 2, 1 / 4]],
          t2_indices1_s = [0, 1], t2_indices2_s = [1, 0],
          t2_mask1_raw = [[1, 0, 0], [0, 1, 0]], t2_mask2_raw = [[0, 1, 0], [1, 0, 0]],
          t2_mask1 = [[1, 0, 0], [0, 1, 0]], t2_mask2 = [[0, 1, 0], [1, 0, 0]],
          t2_gates1_s = [6 / 10, 1 / 2], t2_gates2_s = [3 / 10, 1 / 4],
          t2_locations1 = [[0, 0, 0], [1, 0, 0]], t2_locations2 = [[1, 1, 0], [1, 2, 0]],
          t2_l_aux = 99 / 80\<rparr>"
  by (simp add: top2_front_def top2_capacity_def example_two_tokens_after_def
      example_two_tokens_def eval_defs finfo_eps_def)

lemma example_two_tokens_after_shape: "well_shaped example_two_tokens_after"
  by (simp add: well_shaped_def example_two_tokens_after_def example_two_tokens_def)

theorem normalization_order_witness:
  "(\<exists>L. top2_front example_two_tokens = Inr L
        \<and> normalize_gate_prob_before_dropping example_two_tokens
        \<and> top2_combine example_two_tokens L ! 0 ! 0 ! 0 = 2 / 3
        \<and> top2_combine example_two_tokens L ! 0 ! 1 ! 0 = 0)
   \<and> (\<exists>L. top2_front example_two_tokens_after = Inr L
        \<and> \<not> normalize_gate_prob_before_dropping example_two_tokens_after
        \<and> top2_combine example_two_tokens_after L ! 0 ! 0 ! 0 = 1
        \<and> top2_combine example_two_tokens_after L ! 0 ! 1 ! 0 = 0)"
proof
  let ?L = "\<lparr>t2_capacity = 1,
          t2_gates = [[6 / 10, 3 / 10, 1 / 10], [1 / 4, 1 / 2, 1 / 4]],
          t2_indices1_s = [0, 1], t2_indices2_s = [1, 0],
          t2_mask1_raw = [[1, 0, 0], [0, 1, 0]], t2_mask2_raw = [[0, 1, 0], [1, 0, 0]],
          t2_mask1 = [[1, 0, 0], [0, 1, 0]], t2_mask2 = [[0, 1, 0], [1, 0, 0]],
          t2_gates1_s = [2 / 3, 2 / 3], t2_gates2_s = [1 / 3, 1 / 3],
          t2_locations1 = [[0, 0, 0], [1, 0, 0]], t2_locations2 = [[1, 1, 0], [1, 2, 0]],
          t2_l_aux = 99 / 80\<rparr> :: top2_locals"
  have slot: "top2_locations1_s ?L ! 0 = 0"
    by (simp add: top2_locations1_s_def top2_admitted1_def eval_defs)
  from normalization_order [OF example_two_tokens_shape example_two_tokens_locals,
      of 0 0 1] slot
  have "top2_combine example_two_tokens ?L ! 0 ! 0 ! 0 = 2 / 3
      \<and> top2_combine example_two_tokens ?L ! 0 ! 1 ! 0 = 0"
    by (simp add: example_two_tokens_def top2_admitted1_def top2_admitted2_def eval_defs)
  with example_two_tokens_locals
  show "\<exists>L. top2_front example_two_tokens = Inr L
        \<and> normalize_gate_prob_before_dropping example_two_tokens
        \<and> top2_combine example_two_tokens L ! 0 ! 0 ! 0 = 2 / 3
        \<and> top2_combine example_two_tokens L ! 0 ! 1 ! 0 = 0"
    by (simp add: example_two_tokens_def)
next
  let ?L = "\<lparr>t2_capacity = 1,
          t2_gates = [[6 / 10, 3 / 10, 1 / 10], [1 / 4, 1 / 2, 1 / 4]],
          t2_indices1_s = [0, 1], t2_indices2_s = [1, 0],
          t2_mask1_raw = [[1, 0, 0], [0, 1, 0]], t2_mask2_raw = [[0, 1, 0], [1, 0, 0]],
          t2_mask1 = [[1, 0, 0], [0, 1, 0]], t2_mask2 = [[0, 1, 0], [1, 0, 0]],
          t2_gates1_s = [6 / 10, 1 / 2], t2_gates2_s = [3 / 10, 1 / 4],
          t2_locations1 = [[0, 0, 0], [1, 0, 0]], t2_locations2 = [[1, 1, 0], [1, 2, 0]],
          t2_l_aux = 99 / 80\<rparr> :: top2_locals"
  have slot: "top2_locations1_s ?L ! 0 = 0"
    by (simp add: top2_locations1_s_def top2_admitted1_def eval_defs)
  from normalization_order [OF example_two_tokens_after_shape example_two_tokens_after_locals,
      of 0 0 1] slot
  have "top2_combine example_two_tokens_after ?L ! 0 ! 0 ! 0 = 1
      \<and> top2_combine example_two_tokens_after ?L ! 0 ! 1 ! 0 = 0"
    by (simp add: example_two_tokens_after_def example_two_tokens_def top2_admitted1_def
        top2_admitted2_def eval_defs)
  with example_two_tokens_after_locals
  show "\<exists>L. top2_front example_two_tokens_after = Inr L
        \<and> \<not> normalize_gate_prob_before_dropping example_two_tokens_after
        \<and> top2_combine example_two_tokens_after L ! 0 ! 0 ! 0 = 1
        \<and> top2_combine example_two_tokens_after L ! 0 ! 1 ! 0 = 0"
    by (simp add: example_two_tokens_after_def example_two_tokens_def)
qed

lemma map2_map_map:
  "map2 h (map f xs) (map g xs) = map (\<lambda>x. h (f x) (g x)) xs"
  by (induction xs) simp_all

lemma real_of_int_sum_list:
  "real_of_int (sum_list xs) = sum_list (map real_of_int xs)"
  by (induction xs) simp_all

lemma mean_column_gates: "mean (column gates e) = expert_gate_mean gates e"
  by (simp add: mean_def column_def expert_gate_mean_def)

lemma mean_column_mask:
  assumes "\<forall>m \<in> set mask1. e < length m"
  shows "mean (column (map (map real_of_int) mask1) e) = expert_fraction mask1 e"
proof -
  have eq: "map (\<lambda>m. map real_of_int m ! e) mask1 = map (\<lambda>m. real_of_int (m ! e)) mask1"
    using assms by (intro map_cong [OF refl]) simp
  have "real_of_int (sum_list (map (\<lambda>m. m ! e) mask1))
          = sum_list (map (\<lambda>m. real_of_int (m ! e)) mask1)"
    by (simp only: real_of_int_sum_list map_map comp_def)
  also have "\<dots> = sum_list (map (\<lambda>m. map real_of_int m ! e) mask1)"
    by (simp only: eq)
  finally have "sum_list (map (\<lambda>m. map real_of_int m ! e) mask1)
                  = real_of_int (sum_list (map (\<lambda>m. m ! e) mask1))" by simp
  then show ?thesis
    by (simp only: mean_def column_def expert_fraction_def first_choice_count_def
        map_map comp_def length_map)
qed

lemma compute_l_aux_spec:
  assumes "\<forall>m \<in> set mask1. length m = E"
  shows "compute_l_aux E gates mask1 = balance_loss_spec E gates mask1"
proof -
  have ce: "map (\<lambda>e. mean (column (map (map real_of_int) mask1) e)) [0..<E]
              = map (\<lambda>e. expert_fraction mask1 e) [0..<E]"
  proof (rule map_cong [OF refl])
    fix e assume "e \<in> set [0..<E]"
    then have "\<forall>m \<in> set mask1. e < length m" using assms by simp
    then show "mean (column (map (map real_of_int) mask1) e) = expert_fraction mask1 e"
      by (rule mean_column_mask)
  qed
  have "compute_l_aux E gates mask1
          = mean (map2 (\<lambda>x y. x * y) (map (\<lambda>e. expert_gate_mean gates e) [0..<E])
                    (map (\<lambda>e. expert_fraction mask1 e) [0..<E])) * real E * real E"
    unfolding compute_l_aux_def mean_dim0_def Let_def ce
    by (simp only: mean_column_gates)
  also have "\<dots> = balance_loss_spec E gates mask1"
    by (simp add: map2_map_map mean_def balance_loss_spec_def power2_eq_square)
  finally show ?thesis .
qed

lemma sum_list_upt_sum: "sum_list (map f [0..<n]) = (\<Sum>i<n. f i)"
  by (simp add: interv_sum_list_conv_sum_set_nat atLeast0LessThan)

lemma sum_list_nth_sum: "sum_list (xs :: real list) = (\<Sum>i<length xs. xs ! i)"
  by (simp add: sum_list_sum_nth atLeast0LessThan)

lemma gate_means_sum:
  assumes "well_shaped a" "0 < length (logits a)" "0 < num_experts a"
  shows "sum_list (map (expert_gate_mean (softmax (logits a))) [0..<num_experts a]) = 1"
proof -
  let ?g = "softmax (logits a)"
  let ?S = "length (logits a)"
  let ?E = "num_experts a"
  have row: "(\<Sum>e<?E. ?g ! s ! e) = 1" if "s < ?S" for s
  proof -
    have len: "length (logits a ! s) = ?E" by (rule well_shaped_rows [OF assms(1) that])
    then have ne: "logits a ! s \<noteq> []" using assms(3) by auto
    have "(\<Sum>e<?E. ?g ! s ! e) = sum_list (softmax_row (logits a ! s))"
      using that len by (simp add: softmax_nth sum_list_nth_sum)
    with softmax_row_sum [OF ne] show ?thesis by simp
  qed
  have mean_e: "expert_gate_mean ?g e = (\<Sum>s<?S. ?g ! s ! e) / real ?S" for e
  proof -
    have "sum_list (map (\<lambda>g. g ! e) ?g) = (\<Sum>s<length (map (\<lambda>g. g ! e) ?g). map (\<lambda>g. g ! e) ?g ! s)"
      by (rule sum_list_nth_sum)
    also have "\<dots> = (\<Sum>s<?S. ?g ! s ! e)" by (intro sum.cong) simp_all
    finally show ?thesis by (simp add: expert_gate_mean_def)
  qed
  have "sum_list (map (expert_gate_mean ?g) [0..<?E]) = (\<Sum>e<?E. expert_gate_mean ?g e)"
    by (rule sum_list_upt_sum)
  also have "\<dots> = (\<Sum>e<?E. (\<Sum>s<?S. ?g ! s ! e) / real ?S)"
    by (simp only: mean_e)
  also have "\<dots> = (\<Sum>e<?E. \<Sum>s<?S. ?g ! s ! e) / real ?S"
    by (simp add: sum_divide_distrib)
  also have "(\<Sum>e<?E. \<Sum>s<?S. ?g ! s ! e) = (\<Sum>s<?S. \<Sum>e<?E. ?g ! s ! e)"
    by (rule sum.swap)
  also have "\<dots> = (\<Sum>s<?S. 1)" using row by (intro sum.cong) simp_all
  also have "\<dots> = real ?S" by simp
  finally show ?thesis using assms(2) by simp
qed

lemma balanced_loss_one:
  assumes "well_shaped a" "0 < length (logits a)" "0 < num_experts a"
    "length mask1 = length (logits a)"
    "\<forall>e<num_experts a. real_of_int (first_choice_count mask1 e)
        = real (length (logits a)) / real (num_experts a)"
  shows "balance_loss_spec (num_experts a) (softmax (logits a)) mask1 = 1"
proof -
  let ?g = "softmax (logits a)"
  let ?E = "num_experts a"
  have fr: "expert_fraction mask1 e = 1 / real ?E" if "e < ?E" for e
    using assms(2,4,5) that by (simp add: expert_fraction_def)
  have "map (\<lambda>e. expert_gate_mean ?g e * expert_fraction mask1 e) [0..<?E]
          = map (\<lambda>e. expert_gate_mean ?g e * (1 / real ?E)) [0..<?E]"
    using fr by (intro map_cong [OF refl]) simp
  then have "sum_list (map (\<lambda>e. expert_gate_mean ?g e * expert_fraction mask1 e) [0..<?E])
          = sum_list (map (\<lambda>e. expert_gate_mean ?g e * (1 / real ?E)) [0..<?E])"
    by (simp only:)
  also have "\<dots> = sum_list (map (expert_gate_mean ?g) [0..<?E]) * (1 / real ?E)"
    by (simp only: sum_list_mult_const)
  also have "\<dots> = 1 / real ?E"
    by (simp only: gate_means_sum [OF assms(1,2,3)] mult_1)
  finally show ?thesis
    using assms(3) by (simp add: balance_loss_spec_def power2_eq_square)
qed

lemma top1gating_l_aux:
  assumes "top1_front a = Inr L" "top1gating a = Inr r"
  shows "l_aux_of r = t1_l_aux L"
proof (cases "has_tutel a")
  case True
  with assms show ?thesis by (auto simp: top1gating_def)
next
  case False
  with assms have "top1_dense L = Inr r" by (simp add: top1gating_def)
  then show ?thesis by (auto simp: top1_dense_cases split: if_splits)
qed

lemma top2gating_l_aux:
  assumes "top2_front a = Inr L" "top2gating a = Inr r"
  shows "l_aux_of r = t2_l_aux L"
proof (cases "has_tutel a")
  case True
  with assms show ?thesis by (auto simp: top2gating_def split: prod.splits)
next
  case False
  with assms have "top2_dense a L = Inr r" by (simp add: top2gating_def)
  then show ?thesis by (auto simp: top2_dense_cases split: if_splits)
qed

lemma top1_l_aux_spec:
  assumes "well_shaped a" "top1_front a = Inr L"
  shows "t1_l_aux L = balance_loss_spec (num_experts a) (softmax (logits a)) (pre_mask1 a)"
proof -
  note m1 = selection_mask_pre_mask1 [OF assms(1)]
  have "\<forall>m \<in> set (pre_mask1 a). length m = num_experts a"
    using selection_mask_length [OF m1] selection_mask_row [OF m1]
    by (auto simp: in_set_conv_nth)
  from compute_l_aux_spec [OF this] top1_front_fields(5) [OF assms] show ?thesis by simp
qed

lemma top2_l_aux_spec:
  assumes "well_shaped a" "top2_front a = Inr L"
  shows "t2_l_aux L = balance_loss_spec (num_experts a) (softmax (logits a)) (pre_mask1 a)"
proof -
  note m1 = selection_mask_pre_mask1 [OF assms(1)]
  have "\<forall>m \<in> set (pre_mask1 a). length m = num_experts a"
    using selection_mask_length [OF m1] selection_mask_row [OF m1]
    by (auto simp: in_set_conv_nth)
  from compute_l_aux_spec [OF this] top2_front_fields(10) [OF assms] show ?thesis by simp
qed

lemma example_balanced_top1_shape: "well_shaped example_balanced_top1"
  by (simp add: well_shaped_def example_balanced_top1_def)

lemma example_balanced_top2_shape: "well_shaped example_balanced_top2"
  by (simp add: well_shaped_def example_balanced_top2_def)

lemma example_balanced_masks:
  "pre_mask1 example_balanced_top1 = [[1, 0], [0, 1]]"
  "pre_mask1 example_balanced_top2 = [[1, 0], [0, 1]]"
  by (simp_all add: pre_mask1_def first_choice_def example_balanced_top1_def
      example_balanced_top2_def eval_defs)

lemma example_three_tokens_locals:
  "top1_front example_three_tokens =
     Inr \<lparr>t1_capacity = 1,
          t1_gates = [[1 / 2, 1 / 4, 1 / 4], [1 / 2, 1 / 4, 1 / 4], [1 / 2, 1 / 4, 1 / 4]],
          t1_indices1_s = [0, 0, 0], t1_mask1 = [[1, 0, 0], [1, 0, 0], [1, 0, 0]],
          t1_gates1_s = [1 / 2, 1 / 2, 1 / 2],
          t1_locations1 = [[0, 0, 0], [1, 0, 0], [2, 0, 0]], t1_l_aux = 3 / 2\<rparr>"
  by (simp add: top1_front_def top1_capacity_def py_int_def example_three_tokens_def eval_defs)

text \<open>
  Claim C6. In both routers the loss that the call returns is \<open>E\<^sup>2\<close> times the mean over
  the experts of (mean gate probability of the expert) times (fraction of the tokens whose
  first choice is the expert), the fraction taken on the first-choice mask before the
  capacity filter (one-hot of the argmax, padded tokens zeroed). When every expert is the
  first choice of exactly \<open>S / E\<close> tokens the loss is 1, whatever the gate probabilities
  (each row of the softmax sums to 1), so in particular when they all equal \<open>1 / E\<close>.
\<close>

theorem balance_loss:
  assumes "well_shaped a" "top1gating a = Inr r1"
    and "well_shaped b" "top2gating b = Inr r2"
  shows "l_aux_of r1 = balance_loss_spec (num_experts a) (softmax (logits a)) (pre_mask1 a)
       \<and> l_aux_of r2 = balance_loss_spec (num_experts b) (softmax (logits b)) (pre_mask1 b)
       \<and> (0 < length (logits a)
            \<and> (\<forall>e<num_experts a. real_of_int (first_choice_count (pre_mask1 a) e)
                   = real (length (logits a)) / real (num_experts a))
          \<longrightarrow> l_aux_of r1 = 1)
       \<and> (0 < length (logits b)
            \<and> (\<forall>e<num_experts b. real_of_int (first_choice_count (pre_mask1 b) e)
                   = real (length (logits b)) / real (num_experts b))
          \<longrightarrow> l_aux_of r2 = 1)"
proof -
  from assms(2) obtain L where L: "top1_front a = Inr L"
    by (cases "top1_front a") (simp_all add: top1gating_def)
  from assms(4) obtain M where M: "top2_front b = Inr M"
    by (cases "top2_front b") (simp_all add: top2gating_def)
  have la: "l_aux_of r1 = balance_loss_spec (num_experts a) (softmax (logits a)) (pre_mask1 a)"
    using top1gating_l_aux [OF L assms(2)] top1_l_aux_spec [OF assms(1) L] by simp
  have lb: "l_aux_of r2 = balance_loss_spec (num_experts b) (softmax (logits b)) (pre_mask1 b)"
    using top2gating_l_aux [OF M assms(4)] top2_l_aux_spec [OF assms(3) M] by simp
  have ua: "l_aux_of r1 = 1"
    if "0 < length (logits a)"
      "\<forall>e<num_experts a. real_of_int (first_choice_count (pre_mask1 a) e)
          = real (length (logits a)) / real (num_experts a)"
    using la balanced_loss_one [OF assms(1) that(1) top1_front_experts [OF L]
        selection_mask_length [OF selection_mask_pre_mask1 [OF assms(1)]] that(2)]
    by simp
  have ub: "l_aux_of r2 = 1"
    if "0 < length (logits b)"
      "\<forall>e<num_experts b. real_of_int (first_choice_count (pre_mask1 b) e)
          = real (length (logits b)) / real (num_experts b)"
    using lb balanced_loss_one [OF assms(3) that(1) top2_front_experts [OF M]
        selection_mask_length [OF selection_mask_pre_mask1 [OF assms(3)]] that(2)]
    by simp
  from la lb ua ub show ?thesis by blast
qed

theorem balance_loss_witness:
  "(\<exists>r1 r2. top1gating example_balanced_top1 = Inr r1
       \<and> top2gating example_balanced_top2 = Inr r2
       \<and> l_aux_of r1 = 1 \<and> l_aux_of r2 = 1)
   \<and> (\<exists>r L. top1gating example_three_tokens = Inr r
       \<and> top1_front example_three_tokens = Inr L
       \<and> l_aux_of r = 3 / 2
       \<and> l_aux_of r = balance_loss_spec 3 (t1_gates L) (t1_mask1 L)
       \<and> top1_admitted L = [[1, 0, 0], [0, 0, 0], [0, 0, 0]]
       \<and> balance_loss_spec 3 (t1_gates L) (top1_admitted L) = 1 / 2)"
proof
  have c1: "top1_capacity example_balanced_top1 = Inr 1"
    by (simp add: top1_capacity_cases example_balanced_top1_def py_int_def)
  have "\<exists>L. top1_front example_balanced_top1 = Inr L
           \<and> top1gating example_balanced_top1
               = Inr (Dense (t1_l_aux L) (top1_combine L) (to_bool (top1_combine L)))"
    by (rule top1gating_returns [OF example_balanced_top1_shape _ _ c1])
       (simp_all add: example_balanced_top1_def)
  then obtain r1 where r1: "top1gating example_balanced_top1 = Inr r1" by blast
  have "\<exists>L. top2_front example_balanced_top2 = Inr L
           \<and> top2gating example_balanced_top2
               = Inr (Dense (t2_l_aux L) (top2_combine example_balanced_top2 L)
                       (to_bool (top2_combine example_balanced_top2 L)))"
    by (rule top2gating_returns [OF example_balanced_top2_shape])
       (simp_all add: example_balanced_top2_def)
  then obtain r2 where r2: "top2gating example_balanced_top2 = Inr r2" by blast
  have u1: "\<forall>e<num_experts example_balanced_top1.
              real_of_int (first_choice_count (pre_mask1 example_balanced_top1) e)
                = real (length (logits example_balanced_top1))
                    / real (num_experts example_balanced_top1)"
    by (simp add: example_balanced_masks first_choice_count_def)
       (simp add: example_balanced_top1_def numeral_2_eq_2 less_Suc_eq)
  have u2: "\<forall>e<num_experts example_balanced_top2.
              real_of_int (first_choice_count (pre_mask1 example_balanced_top2) e)
                = real (length (logits example_balanced_top2))
                    / real (num_experts example_balanced_top2)"
    by (simp add: example_balanced_masks first_choice_count_def)
       (simp add: example_balanced_top2_def numeral_2_eq_2 less_Suc_eq)
  have s1: "0 < length (logits example_balanced_top1)"
    and s2: "0 < length (logits example_balanced_top2)"
    by (simp_all add: example_balanced_top1_def example_balanced_top2_def)
  from balance_loss [OF example_balanced_top1_shape r1 example_balanced_top2_shape r2]
    u1 u2 s1 s2
  have "l_aux_of r1 = 1 \<and> l_aux_of r2 = 1" by blast
  with r1 r2
  show "\<exists>r1 r2. top1gating example_balanced_top1 = Inr r1
       \<and> top2gating example_balanced_top2 = Inr r2
       \<and> l_aux_of r1 = 1 \<and> l_aux_of r2 = 1" by blast
next
  let ?L = "\<lparr>t1_capacity = 1,
          t1_gates = [[1 / 2, 1 / 4, 1 / 4], [1 / 2, 1 / 4, 1 / 4], [1 / 2, 1 / 4, 1 / 4]],
          t1_indices1_s = [0, 0, 0], t1_mask1 = [[1, 0, 0], [1, 0, 0], [1, 0, 0]],
          t1_gates1_s = [1 / 2, 1 / 2, 1 / 2],
          t1_locations1 = [[0, 0, 0], [1, 0, 0], [2, 0, 0]], t1_l_aux = 3 / 2\<rparr> :: top1_locals"
  note L = example_three_tokens_locals
  have "\<exists>L. top1_front example_three_tokens = Inr L
           \<and> top1gating example_three_tokens
               = Inr (Dense (t1_l_aux L) (top1_combine L) (to_bool (top1_combine L)))"
    by (rule top1gating_returns [OF example_three_tokens_shape _ _ example_capacities(1)])
       (simp_all add: example_three_tokens_def)
  then obtain r where r: "top1gating example_three_tokens = Inr r" by blast
  have "\<exists>M. top2_front example_balanced_top2 = Inr M
           \<and> top2gating example_balanced_top2
               = Inr (Dense (t2_l_aux M) (top2_combine example_balanced_top2 M)
                       (to_bool (top2_combine example_balanced_top2 M)))"
    by (rule top2gating_returns [OF example_balanced_top2_shape])
       (simp_all add: example_balanced_top2_def)
  then obtain r2 where r2: "top2gating example_balanced_top2 = Inr r2" by blast
  from balance_loss [OF example_three_tokens_shape r example_balanced_top2_shape r2]
  have "l_aux_of r = balance_loss_spec (num_experts example_three_tokens)
                       (softmax (logits example_three_tokens)) (pre_mask1 example_three_tokens)"
    by blast
  with top1_front_fields(1,3) [OF example_three_tokens_shape L]
  have spec: "l_aux_of r = balance_loss_spec 3 (t1_gates ?L) (t1_mask1 ?L)"
    by (simp add: example_three_tokens_def)
  have val: "l_aux_of r = 3 / 2"
    using top1gating_l_aux [OF L r] by simp
  have adm: "top1_admitted ?L = [[1, 0, 0], [0, 0, 0], [0, 0, 0]]"
    by (simp add: top1_admitted_def eval_defs)
  have low: "balance_loss_spec 3 (t1_gates ?L) (top1_admitted ?L) = 1 / 2"
    unfolding adm
    by (simp add: balance_loss_spec_def expert_gate_mean_def expert_fraction_def
        first_choice_count_def numeral_3_eq_3 power2_eq_square)
  from r L spec val adm low
  show "\<exists>r L. top1gating example_three_tokens = Inr r
       \<and> top1_front example_three_tokens = Inr L
       \<and> l_aux_of r = 3 / 2
       \<and> l_aux_of r = balance_loss_spec 3 (t1_gates L) (t1_mask1 L)
       \<and> top1_admitted L = [[1, 0, 0], [0, 0, 0], [0, 0, 0]]
       \<and> balance_loss_spec 3 (t1_gates L) (top1_admitted L) = 1 / 2"
    by blast
qed

end
